theory Spec2Isabelle
  imports Complex_Main "HOL-Library.Multiset" "HOL-Library.Product_Lexorder"
begin

section \<open>Data model of \<open>alchemlyb.estimators.bar_\<close>\<close>

text \<open>
  The estimator works on floating-point numbers. They are embedded as \<^typ>\<open>real\<close>, twice.
  In \<open>fit\<close> every sum, difference, square and square root is the exact one; the properties
  settled on it (signs, symmetry, shape, which call gives which entry, failures) do not
  turn on rounding. In \<open>fit_f64\<close>, further down, every arithmetic operation of the source
  is followed by the rounding to binary64; the properties that equate a result with a
  sum or a square are settled there. Infinities and NaN are outside this development.

  An Energy Table (\<open>u_nk\<close>) is a pandas DataFrame with a MultiIndex: the first index level
  (the time of the sample) and the remaining levels, which name the state the sample was
  drawn from. A row carries both and one reduced potential per column.
\<close>

record 'l row =
  time :: real
  origin :: 'l
  energies :: "real list"

record 'l energy_table =
  columns :: "'l list"
  rows :: "'l row list"

text \<open>The output tables: a square array of numbers with row and column labels.\<close>

record 'l DataFrame =
  data :: "real list list"
  index :: "'l list"
  df_columns :: "'l list"

text \<open>
  Python values that travel as keyword arguments, and one call of \<open>pymbar.BAR\<close>: the two
  positional work sequences and the keyword arguments, in the order they are written.
\<close>

datatype pyval = PyInt int | PyFloat real | PyBool bool | PyStr string | PyNone

record bar_call =
  w_F :: "real list"
  w_R :: "real list"
  kwargs :: "(string \<times> pyval) list"

text \<open>
  The exceptions that can leave \<open>fit\<close>: \<open>KeyError\<close> from \<open>groups.get_group\<close>, \<open>ValueError\<close>
  from the \<open>pd.DataFrame\<close> constructor when the labels do not fit the array, and whatever
  the pairwise solver raises.
\<close>

datatype ('l, 'e) error = KeyError 'l | ValueError | SolverError 'e

text \<open>
  The estimator object. The attributes \<open>states_\<close>, \<open>delta_f_\<close> and \<open>d_delta_f_\<close> do not exist
  until \<open>fit\<close> assigns them: they are options here, \<open>None\<close> for a missing attribute
  (the fields are \<open>states\<close>, \<open>delta_f\<close>, \<open>d_delta_f\<close>, and \<open>bar_handle\<close> for \<open>_bar\<close>).
  \<open>method_arg\<close> stands for the attribute \<open>method\<close>: the one-element tuple of a one-entry dict
  that \<open>__init__\<close> builds.
\<close>

record 'l BAR =
  maximum_iterations :: int
  relative_tolerance :: real
  initial_f_k :: "real list option"
  method_arg :: "(string \<times> string) list list"
  verbose :: bool
  bar_handle :: "unit option"
  states :: "'l list option"
  delta_f :: "'l DataFrame option"
  d_delta_f :: "'l DataFrame option"

definition BAR_init :: "int \<Rightarrow> real \<Rightarrow> real list option \<Rightarrow> string \<Rightarrow> bool \<Rightarrow> 'l BAR" where
  "BAR_init max_it rel_tol init_f_k meth verb =
     \<lparr> maximum_iterations = max_it,
       relative_tolerance = rel_tol,
       initial_f_k = init_f_k,
       method_arg = [[(''method'', meth)]],
       verbose = verb,
       bar_handle = None,
       states = None,
       delta_f = None,
       d_delta_f = None \<rparr>"

section \<open>The pandas and numpy operations \<open>fit\<close> uses\<close>

text \<open>
  \<open>u_nk.sort_index(level=u_nk.index.names[1:])\<close>: a stable sort of the rows by the state
  levels of the index and then, since \<open>sort_remaining\<close> is on by default, by the remaining
  level.
\<close>

definition sort_index :: "('l::linorder) energy_table \<Rightarrow> 'l energy_table" where
  "sort_index t = t\<lparr>rows := sort_key (\<lambda>r. (origin r, time r)) (rows t)\<rparr>"

text \<open>
  \<open>u_nk.groupby(level=...)\<close> is lazy: it is the sorted row list. \<open>i in groups.groups\<close> asks
  whether some row has the label, and \<open>groups.get_group(i)\<close> returns the rows with the
  label in table order, raising \<open>KeyError\<close> when there is none.
\<close>

definition in_groups :: "'l row list \<Rightarrow> 'l \<Rightarrow> bool" where
  "in_groups groups i = (i \<in> origin ` set groups)"

definition get_group :: "'l row list \<Rightarrow> 'l \<Rightarrow> ('l, 'e) error + 'l row list" where
  "get_group groups i =
     (case filter (\<lambda>r. origin r = i) groups of
        [] \<Rightarrow> Inl (KeyError i)
      | g # gs \<Rightarrow> Inr (g # gs))"

text \<open>\<open>frame.iloc[:, k]\<close>: column \<open>k\<close>, by position, of every row of the frame.\<close>

definition iloc_col :: "'l row list \<Rightarrow> nat \<Rightarrow> real list" where
  "iloc_col frame k = map (\<lambda>r. energies r ! k) frame"

text \<open>The difference of two series over the same index is taken element by element.\<close>

definition series_sub :: "real list \<Rightarrow> real list \<Rightarrow> real list" where
  "series_sub a b = map2 (-) a b"

text \<open>A slice \<open>xs[a:b]\<close> with \<open>0 \<le> a\<close>; Python clips it to the sequence.\<close>

definition py_slice :: "'a list \<Rightarrow> nat \<Rightarrow> nat \<Rightarrow> 'a list" where
  "py_slice xs a b = take (b - a) (drop a xs)"

definition np_zeros :: "nat \<Rightarrow> nat \<Rightarrow> real list list" where
  "np_zeros n m = replicate n (replicate m 0)"

text \<open>
  \<open>np.diagflat(v, k)\<close> for \<open>k \<ge> 0\<close>: the square array of side \<open>len(v) + k\<close> with \<open>v\<close> on its
  \<open>k\<close>-th superdiagonal and zero elsewhere.
\<close>

definition np_diagflat :: "real list \<Rightarrow> nat \<Rightarrow> real list list" where
  "np_diagflat v k =
     map (\<lambda>r. map (\<lambda>c. if c = r + k \<and> r < length v then v ! r else 0) [0..<length v + k])
         [0..<length v + k]"

text \<open>
  Elementwise sum and difference of two arrays. numpy requires equal shapes (or
  broadcasts); \<open>fit\<close> applies them to square arrays of one and the same side only.
\<close>

definition np_add :: "real list list \<Rightarrow> real list list \<Rightarrow> real list list" where
  "np_add A B = map2 (map2 (+)) A B"

definition np_sub :: "real list list \<Rightarrow> real list list \<Rightarrow> real list list" where
  "np_sub A B = map2 (map2 (-)) A B"

text \<open>
  The elementwise square root, taken exactly; \<open>np_sqrt_f64\<close> below is the rounded one.
\<close>

definition np_sqrt :: "real list list \<Rightarrow> real list list" where
  "np_sqrt A = map (map sqrt) A"

definition ncols :: "real list list \<Rightarrow> nat" where
  "ncols A = (case A of [] \<Rightarrow> 0 | r # rs \<Rightarrow> length r)"

definition np_T :: "real list list \<Rightarrow> real list list" where
  "np_T A = map (\<lambda>c. map (\<lambda>r. A ! r ! c) [0..<length A]) [0..<ncols A]"

text \<open>
  \<open>pd.DataFrame(array, columns=..., index=...)\<close> raises \<open>ValueError\<close> unless the array has
  one row per index label and one column per column label.
\<close>

definition pd_DataFrame ::
  "real list list \<Rightarrow> 'l list \<Rightarrow> 'l list \<Rightarrow> ('l, 'e) error + 'l DataFrame" where
  "pd_DataFrame A cols idx =
     (if length A = length idx \<and> ncols A = length cols
      then Inr \<lparr> data = A, index = idx, df_columns = cols \<rparr>
      else Inl ValueError)"

section \<open>\<open>BAR.fit\<close>\<close>

text \<open>
  The loop over the adjacent pairs (lines 89 to 107). \<open>solve\<close> is \<open>pymbar.BAR\<close>, an external
  function that returns \<open>(df, ddf)\<close> or raises. The loop carries \<open>deltas\<close> and \<open>d_deltas\<close>,
  and the list of the calls made so far, which is returned also when an exception ends
  the loop.
\<close>

fun pair_loop ::
  "(bar_call \<Rightarrow> 'e + real \<times> real) \<Rightarrow> 'l BAR \<Rightarrow> 'l row list \<Rightarrow> 'l list \<Rightarrow> nat list \<Rightarrow>
   real list \<times> real list \<Rightarrow> bar_call list \<Rightarrow>
   (('l, 'e) error + real list \<times> real list) \<times> bar_call list" where
  "pair_loop solve self groups sts [] acc calls = (Inr acc, calls)"
| "pair_loop solve self groups sts (k # ks) (deltas, d_deltas) calls =
     (case get_group groups (sts ! k) of
        Inl e \<Rightarrow> (Inl e, calls)
      | Inr uk \<Rightarrow>
          (let wf = series_sub (iloc_col uk (k + 1)) (iloc_col uk k) in
           case get_group groups (sts ! (k + 1)) of
             Inl e \<Rightarrow> (Inl e, calls)
           | Inr uk1 \<Rightarrow>
               (let wr = series_sub (iloc_col uk1 k) (iloc_col uk1 (k + 1));
                    call = \<lparr> w_F = wf, w_R = wr,
                             kwargs = [(''maximum_iterations'', PyInt (maximum_iterations self)),
                                       (''relative_tolerance'', PyFloat (relative_tolerance self)),
                                       (''verbose'', PyBool (verbose self))] \<rparr>
                in case solve call of
                     Inl e \<Rightarrow> (Inl (SolverError e), calls @ [call])
                   | Inr (df, ddf) \<Rightarrow>
                       pair_loop solve self groups sts ks
                         (deltas @ [df], d_deltas @ [ddf ^ 2]) (calls @ [call]))))"

text \<open>
  Lines 114 to 118: the entries of the superdiagonal \<open>j + 1\<close>, one for each start \<open>i\<close> in
  \<open>range(len(deltas) - j)\<close>. The additions are exact here; \<open>diag_sums_f64\<close> below rounds
  them as the program does.
\<close>

definition diag_sums :: "real list \<Rightarrow> nat \<Rightarrow> real list" where
  "diag_sums xs j =
     map (\<lambda>i. xs ! i + sum_list (py_slice xs (i + 1) (i + j + 1))) [0..<length xs - j]"

text \<open>The loop over \<open>j\<close> (lines 113 to 121), carrying \<open>adelta\<close> and \<open>ad_delta\<close>.\<close>

fun fill_loop ::
  "real list \<Rightarrow> real list \<Rightarrow> nat list \<Rightarrow> real list list \<times> real list list \<Rightarrow>
   real list list \<times> real list list" where
  "fill_loop deltas d_deltas [] (adelta, ad_delta) = (adelta, ad_delta)"
| "fill_loop deltas d_deltas (j # js) (adelta, ad_delta) =
     (let out = diag_sums deltas j;
          dout = diag_sums d_deltas j
      in fill_loop deltas d_deltas js
           (np_add adelta (np_diagflat out (j + 1)), np_add ad_delta (np_diagflat dout (j + 1))))"

text \<open>
  \<open>fit\<close> returns the outcome (\<open>Inr ()\<close> for a normal return, \<open>Inl\<close> for the exception that
  left it), the estimator as the call leaves it, and the solver calls it made, in order.
  \<open>range(len(N_k) - 1)\<close> is empty when there is no column; the truncating subtraction on
  \<^typ>\<open>nat\<close> gives the same empty range.
\<close>

definition fit ::
  "(bar_call \<Rightarrow> 'e + real \<times> real) \<Rightarrow> ('l::linorder) BAR \<Rightarrow> 'l energy_table \<Rightarrow>
   (('l, 'e) error + unit) \<times> 'l BAR \<times> bar_call list" where
  "fit solve self u_nk0 =
     (let u_nk = sort_index u_nk0;
          self1 = self\<lparr>states := Some (columns u_nk)\<rparr>;
          sts = columns u_nk;
          groups = rows u_nk;
          N_k = map (\<lambda>i. if in_groups groups i
                          then length (filter (\<lambda>r. origin r = i) groups) else 0) (columns u_nk)
      in case pair_loop solve self1 groups sts [0..<length N_k - 1] ([], []) [] of
           (Inl e, calls) \<Rightarrow> (Inl e, self1, calls)
         | (Inr (deltas, d_deltas), calls) \<Rightarrow>
             (let adelta0 = np_zeros (length deltas + 1) (length deltas + 1);
                  ad_delta0 = adelta0;
                  (adelta, ad_delta) =
                     fill_loop deltas d_deltas [0..<length deltas] (adelta0, ad_delta0)
              in case pd_DataFrame (np_sub adelta (np_T adelta)) sts sts of
                   Inl e \<Rightarrow> (Inl e, self1, calls)
                 | Inr D \<Rightarrow>
                     (let self2 = self1\<lparr>delta_f := Some D\<rparr> in
                      case pd_DataFrame (np_sqrt (np_add ad_delta (np_T ad_delta))) sts sts of
                        Inl e \<Rightarrow> (Inl e, self2, calls)
                      | Inr dD \<Rightarrow> (Inr (), self2\<lparr>d_delta_f := Some dD\<rparr>, calls))))"

section \<open>The specification's wording of the work sequences\<close>

text \<open>
  The specification describes what reaches the pairwise solver for chain position \<open>k\<close>:
  the forward work is the potential at column \<open>k + 1\<close> minus the potential at column \<open>k\<close>
  over every sample whose origin is state \<open>k\<close>, the reverse work is the potential at
  column \<open>k\<close> minus the potential at column \<open>k + 1\<close> over every sample whose origin is
  state \<open>k + 1\<close>, both read from the table sorted by origin. These two definitions follow
  those words; the theorems compare them with what \<open>pair_loop\<close> passes.
\<close>

definition spec_w_F :: "'l row list \<Rightarrow> 'l list \<Rightarrow> nat \<Rightarrow> real list" where
  "spec_w_F sorted_rows sts k =
     map (\<lambda>r. energies r ! (k + 1) - energies r ! k) (filter (\<lambda>r. origin r = sts ! k) sorted_rows)"

definition spec_w_R :: "'l row list \<Rightarrow> 'l list \<Rightarrow> nat \<Rightarrow> real list" where
  "spec_w_R sorted_rows sts k =
     map (\<lambda>r. energies r ! k - energies r ! (k + 1))
         (filter (\<lambda>r. origin r = sts ! (k + 1)) sorted_rows)"

section \<open>Notions used in the proofs\<close>

text \<open>The keyword arguments of a solver call, and the call for chain position \<open>k\<close>.\<close>

definition bar_kwargs :: "'l BAR \<Rightarrow> (string \<times> pyval) list" where
  "bar_kwargs self = [(''maximum_iterations'', PyInt (maximum_iterations self)),
                      (''relative_tolerance'', PyFloat (relative_tolerance self)),
                      (''verbose'', PyBool (verbose self))]"

definition pair_call :: "'l BAR \<Rightarrow> 'l row list \<Rightarrow> 'l list \<Rightarrow> nat \<Rightarrow> bar_call" where
  "pair_call self groups sts k =
     \<lparr> w_F = spec_w_F groups sts k, w_R = spec_w_R groups sts k, kwargs = bar_kwargs self \<rparr>"

text \<open>A square array given by its entries, and the sum of a run of a list.\<close>

definition mat_of :: "nat \<Rightarrow> (nat \<Rightarrow> nat \<Rightarrow> real) \<Rightarrow> real list list" where
  "mat_of n f = map (\<lambda>r. map (\<lambda>c. f r c) [0..<n]) [0..<n]"

definition upper :: "real list \<Rightarrow> nat \<Rightarrow> nat \<Rightarrow> real" where
  "upper xs r c = (if r < c then (\<Sum>k = r..<c. xs ! k) else 0)"

definition diag_term :: "real list \<Rightarrow> nat \<Rightarrow> nat \<Rightarrow> nat \<Rightarrow> real" where
  "diag_term xs j r c = (if c = r + (j + 1) \<and> r < length xs - j then diag_sums xs j ! r else 0)"

text \<open>The two tables a successful \<open>fit\<close> assigns, in closed form.\<close>

definition delta_frame :: "'l list \<Rightarrow> real list \<Rightarrow> 'l DataFrame" where
  "delta_frame sts ds =
     \<lparr> data = mat_of (length sts) (\<lambda>r c. upper ds r c - upper ds c r),
       index = sts, df_columns = sts \<rparr>"

definition d_delta_frame :: "'l list \<Rightarrow> real list \<Rightarrow> 'l DataFrame" where
  "d_delta_frame sts dds =
     \<lparr> data = mat_of (length sts) (\<lambda>r c. sqrt (upper dds r c + upper dds c r)),
       index = sts, df_columns = sts \<rparr>"

section \<open>Concrete runs\<close>

text \<open>
  Two stand-ins for the external solver: one that answers every call (the difference of
  the two sums, and an error that grows with the forward sample), one that always raises.
\<close>

definition solver_demo :: "bar_call \<Rightarrow> unit + real \<times> real" where
  "solver_demo c = Inr (sum_list (w_F c) - sum_list (w_R c), 2 + real (length (w_F c)))"

definition solver_fail :: "bar_call \<Rightarrow> unit + real \<times> real" where
  "solver_fail c = Inl ()"

text \<open>A fresh estimator with the default parameters, and one configured otherwise.\<close>

definition est0 :: "nat BAR" where
  "est0 = BAR_init 10000 (1 / 10000000) None ''hybr'' False"

definition est_bfgs :: "nat BAR" where
  "est_bfgs = BAR_init 10000 (1 / 10000000) (Some [1, 2, 3]) ''BFGS'' False"

text \<open>
  Tables: three states with samples from each, in unsorted order; one column whose state
  has no sample; three columns, the last without samples; two columns and samples from
  three states.
\<close>

definition tbl3 :: "nat energy_table" where
  "tbl3 = \<lparr> columns = [0, 1, 2],
            rows = [ \<lparr> time = 0, origin = 1, energies = [2, 0, 1] \<rparr>,
                     \<lparr> time = 0, origin = 0, energies = [0, 1, 4] \<rparr>,
                     \<lparr> time = 0, origin = 2, energies = [5, 3, 0] \<rparr>,
                     \<lparr> time = 1, origin = 0, energies = [0, 2, 3] \<rparr> ] \<rparr>"

definition tbl_one :: "nat energy_table" where
  "tbl_one = \<lparr> columns = [0], rows = [ \<lparr> time = 0, origin = 1, energies = [3] \<rparr> ] \<rparr>"

definition tbl_gap :: "nat energy_table" where
  "tbl_gap = \<lparr> columns = [0, 1, 2],
               rows = [ \<lparr> time = 0, origin = 1, energies = [2, 0, 1] \<rparr>,
                        \<lparr> time = 0, origin = 0, energies = [0, 1, 4] \<rparr> ] \<rparr>"

definition tbl_extra :: "nat energy_table" where
  "tbl_extra = \<lparr> columns = [0, 1],
                 rows = [ \<lparr> time = 0, origin = 2, energies = [7, 7] \<rparr>,
                          \<lparr> time = 0, origin = 1, energies = [3, 1] \<rparr>,
                          \<lparr> time = 0, origin = 0, energies = [0, 1] \<rparr> ] \<rparr>"

text \<open>The solver calls and the results of these runs.\<close>

definition cfg_kwargs :: "(string \<times> pyval) list" where
  "cfg_kwargs = [(''maximum_iterations'', PyInt 10000),
                 (''relative_tolerance'', PyFloat (1 / 10000000)),
                 (''verbose'', PyBool False)]"

definition calls3 :: "bar_call list" where
  "calls3 = [ \<lparr> w_F = [1, 2], w_R = [2], kwargs = cfg_kwargs \<rparr>,
             \<lparr> w_F = [1], w_R = [3], kwargs = cfg_kwargs \<rparr> ]"

definition call_12 :: bar_call where
  "call_12 = \<lparr> w_F = [1], w_R = [2], kwargs = cfg_kwargs \<rparr>"

definition D3 :: "nat DataFrame" where
  "D3 = \<lparr> data = [[0, 1, -1], [-1, 0, -2], [1, 2, 0]], index = [0, 1, 2], df_columns = [0, 1, 2] \<rparr>"

definition E3 :: "nat DataFrame" where
  "E3 = \<lparr> data = [[0, 4, 5], [4, 0, 3], [5, 3, 0]], index = [0, 1, 2], df_columns = [0, 1, 2] \<rparr>"

definition est3 :: "nat BAR" where
  "est3 = est0\<lparr>states := Some [0, 1, 2], delta_f := Some D3, d_delta_f := Some E3\<rparr>"

definition est3_failed :: "nat BAR" where
  "est3_failed = est0\<lparr>states := Some [0, 1, 2]\<rparr>"

definition zero_frame :: "nat DataFrame" where
  "zero_frame = \<lparr> data = [[0]], index = [0], df_columns = [0] \<rparr>"

definition est_one :: "nat BAR" where
  "est_one = est0\<lparr>states := Some [0], delta_f := Some zero_frame, d_delta_f := Some zero_frame\<rparr>"

definition est_extra :: "nat BAR" where
  "est_extra = est0\<lparr>states := Some [0, 1],
     delta_f := Some \<lparr> data = [[0, -1], [1, 0]], index = [0, 1], df_columns = [0, 1] \<rparr>,
     d_delta_f := Some \<lparr> data = [[0, 3], [3, 0]], index = [0, 1], df_columns = [0, 1] \<rparr>\<rparr>"

section \<open>The same code in float64 arithmetic\<close>

text \<open>
  A binary64 number is a real \<open>m * 2 ^ e\<close> with an integer \<open>m\<close> of at most 53 bits.
  \<open>f64 x\<close> is the binary64 number nearest to \<open>x\<close>, the one with the even significand
  when two are equally near: what an IEEE operation returns for the exact result \<open>x\<close>.
  The exponent is not bounded here, so overflow and subnormal numbers are left out.
\<close>

definition round_half_even :: "real \<Rightarrow> int" where
  "round_half_even y =
     (if y - of_int \<lfloor>y\<rfloor> < 1 / 2 then \<lfloor>y\<rfloor>
      else if 1 / 2 < y - of_int \<lfloor>y\<rfloor> then \<lfloor>y\<rfloor> + 1
      else if even \<lfloor>y\<rfloor> then \<lfloor>y\<rfloor> else \<lfloor>y\<rfloor> + 1)"

definition f64 :: "real \<Rightarrow> real" where
  "f64 x =
     (if x = 0 then 0
      else sgn x * of_int (round_half_even (\<bar>x\<bar> / 2 powr of_int (\<lfloor>log 2 \<bar>x\<bar>\<rfloor> - 52))) *
           2 powr of_int (\<lfloor>log 2 \<bar>x\<bar>\<rfloor> - 52))"

text \<open>
  \<open>ddf**2\<close> on a float64 number, and the elementwise operations of numpy and pandas on
  float64 arrays.
\<close>

definition sq_f64 :: "real \<Rightarrow> real" where
  "sq_f64 x = f64 (f64 x * f64 x)"

definition series_sub_f64 :: "real list \<Rightarrow> real list \<Rightarrow> real list" where
  "series_sub_f64 a b = map2 (\<lambda>x y. f64 (x - y)) a b"

definition np_add_f64 :: "real list list \<Rightarrow> real list list \<Rightarrow> real list list" where
  "np_add_f64 A B = map2 (map2 (\<lambda>x y. f64 (x + y))) A B"

definition np_sub_f64 :: "real list list \<Rightarrow> real list list \<Rightarrow> real list list" where
  "np_sub_f64 A B = map2 (map2 (\<lambda>x y. f64 (x - y))) A B"

definition np_sqrt_f64 :: "real list list \<Rightarrow> real list list" where
  "np_sqrt_f64 A = map (map (\<lambda>x. f64 (sqrt x))) A"

text \<open>
  The loop over the adjacent pairs, as \<open>pair_loop\<close>, with the float64 subtraction of the
  two columns. The answers \<open>df\<close> and \<open>ddf\<close> of the solver are float64 numbers: \<open>np.append\<close>
  stores \<open>f64 df\<close> and the float64 square of \<open>ddf\<close>.
\<close>

fun pair_loop_f64 ::
  "(bar_call \<Rightarrow> 'e + real \<times> real) \<Rightarrow> 'l BAR \<Rightarrow> 'l row list \<Rightarrow> 'l list \<Rightarrow> nat list \<Rightarrow>
   real list \<times> real list \<Rightarrow> bar_call list \<Rightarrow>
   (('l, 'e) error + real list \<times> real list) \<times> bar_call list" where
  "pair_loop_f64 solve self groups sts [] acc calls = (Inr acc, calls)"
| "pair_loop_f64 solve self groups sts (k # ks) (deltas, d_deltas) calls =
     (case get_group groups (sts ! k) of
        Inl e \<Rightarrow> (Inl e, calls)
      | Inr uk \<Rightarrow>
          (let wf = series_sub_f64 (iloc_col uk (k + 1)) (iloc_col uk k) in
           case get_group groups (sts ! (k + 1)) of
             Inl e \<Rightarrow> (Inl e, calls)
           | Inr uk1 \<Rightarrow>
               (let wr = series_sub_f64 (iloc_col uk1 k) (iloc_col uk1 (k + 1));
                    call = \<lparr> w_F = wf, w_R = wr,
                             kwargs = [(''maximum_iterations'', PyInt (maximum_iterations self)),
                                       (''relative_tolerance'', PyFloat (relative_tolerance self)),
                                       (''verbose'', PyBool (verbose self))] \<rparr>
                in case solve call of
                     Inl e \<Rightarrow> (Inl (SolverError e), calls @ [call])
                   | Inr (df, ddf) \<Rightarrow>
                       pair_loop_f64 solve self groups sts ks
                         (deltas @ [f64 df], d_deltas @ [sq_f64 ddf]) (calls @ [call]))))"

text \<open>
  Lines 113 to 121 in float64. \<open>npsum\<close> stands for numpy's \<open>sum\<close> of a float64 array,
  which is not part of this repository; the entry is the float64 sum of \<open>deltas[i]\<close> and
  that number.
\<close>

definition diag_sums_f64 :: "(real list \<Rightarrow> real) \<Rightarrow> real list \<Rightarrow> nat \<Rightarrow> real list" where
  "diag_sums_f64 npsum xs j =
     map (\<lambda>i. f64 (xs ! i + npsum (py_slice xs (i + 1) (i + j + 1)))) [0..<length xs - j]"

fun fill_loop_f64 ::
  "(real list \<Rightarrow> real) \<Rightarrow> real list \<Rightarrow> real list \<Rightarrow> nat list \<Rightarrow>
   real list list \<times> real list list \<Rightarrow> real list list \<times> real list list" where
  "fill_loop_f64 npsum deltas d_deltas [] (adelta, ad_delta) = (adelta, ad_delta)"
| "fill_loop_f64 npsum deltas d_deltas (j # js) (adelta, ad_delta) =
     (let out = diag_sums_f64 npsum deltas j;
          dout = diag_sums_f64 npsum d_deltas j
      in fill_loop_f64 npsum deltas d_deltas js
           (np_add_f64 adelta (np_diagflat out (j + 1)),
            np_add_f64 ad_delta (np_diagflat dout (j + 1))))"

text \<open>\<open>fit\<close> in float64: the same steps in the same order, with the operations above.\<close>

definition fit_f64 ::
  "(real list \<Rightarrow> real) \<Rightarrow> (bar_call \<Rightarrow> 'e + real \<times> real) \<Rightarrow> ('l::linorder) BAR \<Rightarrow>
   'l energy_table \<Rightarrow> (('l, 'e) error + unit) \<times> 'l BAR \<times> bar_call list" where
  "fit_f64 npsum solve self u_nk0 =
     (let u_nk = sort_index u_nk0;
          self1 = self\<lparr>states := Some (columns u_nk)\<rparr>;
          sts = columns u_nk;
          groups = rows u_nk;
          N_k = map (\<lambda>i. if in_groups groups i
                          then length (filter (\<lambda>r. origin r = i) groups) else 0) (columns u_nk)
      in case pair_loop_f64 solve self1 groups sts [0..<length N_k - 1] ([], []) [] of
           (Inl e, calls) \<Rightarrow> (Inl e, self1, calls)
         | (Inr (deltas, d_deltas), calls) \<Rightarrow>
             (let adelta0 = np_zeros (length deltas + 1) (length deltas + 1);
                  ad_delta0 = adelta0;
                  (adelta, ad_delta) =
                     fill_loop_f64 npsum deltas d_deltas [0..<length deltas] (adelta0, ad_delta0)
              in case pd_DataFrame (np_sub_f64 adelta (np_T adelta)) sts sts of
                   Inl e \<Rightarrow> (Inl e, self1, calls)
                 | Inr D \<Rightarrow>
                     (let self2 = self1\<lparr>delta_f := Some D\<rparr> in
                      case pd_DataFrame (np_sqrt_f64 (np_add_f64 ad_delta (np_T ad_delta))) sts sts of
                        Inl e \<Rightarrow> (Inl e, self2, calls)
                      | Inr dD \<Rightarrow> (Inr (), self2\<lparr>d_delta_f := Some dD\<rparr>, calls))))"

text \<open>
  numpy adds an array of fewer than eight float64 elements from left to right, starting
  at zero (longer arrays are added in blocks); the runs below sum at most two elements.
\<close>

definition np_sum_loop :: "real list \<Rightarrow> real" where
  "np_sum_loop xs = foldl (\<lambda>acc x. f64 (acc + x)) 0 xs"

text \<open>The entries of the float64 tables in closed form, for the proofs.\<close>

definition diag_term_f64 :: "(real list \<Rightarrow> real) \<Rightarrow> real list \<Rightarrow> nat \<Rightarrow> nat \<Rightarrow> nat \<Rightarrow> real" where
  "diag_term_f64 npsum xs j r c =
     (if c = r + (j + 1) \<and> r < length xs - j then diag_sums_f64 npsum xs j ! r else 0)"

definition upper_f64 :: "(real list \<Rightarrow> real) \<Rightarrow> real list \<Rightarrow> nat \<Rightarrow> nat \<Rightarrow> real" where
  "upper_f64 npsum xs r c =
     (if r < c then f64 (xs ! r + npsum (map (\<lambda>k. xs ! k) [r + 1..<c])) else 0)"

definition delta_frame_f64 :: "(real list \<Rightarrow> real) \<Rightarrow> 'l list \<Rightarrow> real list \<Rightarrow> 'l DataFrame" where
  "delta_frame_f64 npsum sts ds =
     \<lparr> data = mat_of (length sts) (\<lambda>r c. f64 (upper_f64 npsum ds r c - upper_f64 npsum ds c r)),
       index = sts, df_columns = sts \<rparr>"

definition d_delta_frame_f64 :: "(real list \<Rightarrow> real) \<Rightarrow> 'l list \<Rightarrow> real list \<Rightarrow> 'l DataFrame" where
  "d_delta_frame_f64 npsum sts dds =
     \<lparr> data = mat_of (length sts)
                (\<lambda>r c. f64 (sqrt (f64 (upper_f64 npsum dds r c + upper_f64 npsum dds c r)))),
       index = sts, df_columns = sts \<rparr>"

section \<open>Concrete runs in float64\<close>

text \<open>
  The binary64 numbers nearest to 0.1, 0.2 and 0.3; the two neighbours 0.3 (which is
  \<open>fl_03\<close>) and 0.30000000000000004; the two neighbours 0.6 and 0.6000000000000001; the
  roots of 2 and 3 as float64 returns them; and 2.0000000000000004.
\<close>

definition fl_01 :: real where "fl_01 = 3602879701896397 / 2 ^ 55"

definition fl_02 :: real where "fl_02 = 3602879701896397 / 2 ^ 54"

definition fl_03 :: real where "fl_03 = 5404319552844595 / 2 ^ 54"

definition fl_03up :: real where "fl_03up = 5404319552844596 / 2 ^ 54"

definition fl_06 :: real where "fl_06 = 5404319552844595 / 2 ^ 53"

definition fl_06up :: real where "fl_06up = 5404319552844596 / 2 ^ 53"

definition fl_sqrt2 :: real where "fl_sqrt2 = 6369051672525773 / 2 ^ 52"

definition fl_sqrt3 :: real where "fl_sqrt3 = 7800463371553962 / 2 ^ 52"

definition fl_2up :: real where "fl_2up = 4503599627370497 / 2 ^ 51"

text \<open>
  A solver that answers 0.1, 0.2 or 0.3 for a forward sample of one, two or more works,
  with standard error 1; a table of four states with one, two, three and one samples;
  and the calls and tables of its float64 run.
\<close>

definition solver_tenths :: "bar_call \<Rightarrow> unit + real \<times> real" where
  "solver_tenths c =
     Inr (if length (w_F c) = 1 then fl_01 else if length (w_F c) = 2 then fl_02 else fl_03, 1)"

definition tbl4 :: "nat energy_table" where
  "tbl4 = \<lparr> columns = [0, 1, 2, 3],
            rows = [ \<lparr> time = 0, origin = 3, energies = [0, 0, 0, 0] \<rparr>,
                     \<lparr> time = 0, origin = 2, energies = [0, 0, 0, 0] \<rparr>,
                     \<lparr> time = 1, origin = 2, energies = [0, 0, 0, 0] \<rparr>,
                     \<lparr> time = 2, origin = 2, energies = [0, 0, 0, 0] \<rparr>,
                     \<lparr> time = 0, origin = 1, energies = [0, 0, 0, 0] \<rparr>,
                     \<lparr> time = 1, origin = 1, energies = [0, 0, 0, 0] \<rparr>,
                     \<lparr> time = 0, origin = 0, energies = [0, 0, 0, 0] \<rparr> ] \<rparr>"

definition calls4 :: "bar_call list" where
  "calls4 = [ \<lparr> w_F = [0], w_R = [0, 0], kwargs = cfg_kwargs \<rparr>,
             \<lparr> w_F = [0, 0], w_R = [0, 0, 0], kwargs = cfg_kwargs \<rparr>,
             \<lparr> w_F = [0, 0, 0], w_R = [0], kwargs = cfg_kwargs \<rparr> ]"

definition D4 :: "nat DataFrame" where
  "D4 = \<lparr> data = [[0, fl_01, fl_03up, fl_06],
                   [- fl_01, 0, fl_02, 1 / 2],
                   [- fl_03up, - fl_02, 0, fl_03],
                   [- fl_06, - (1 / 2), - fl_03, 0]],
           index = [0, 1, 2, 3], df_columns = [0, 1, 2, 3] \<rparr>"

definition E4 :: "nat DataFrame" where
  "E4 = \<lparr> data = [[0, 1, fl_sqrt2, fl_sqrt3],
                   [1, 0, 1, fl_sqrt2],
                   [fl_sqrt2, 1, 0, 1],
                   [fl_sqrt3, fl_sqrt2, 1, 0]],
           index = [0, 1, 2, 3], df_columns = [0, 1, 2, 3] \<rparr>"

definition est4 :: "nat BAR" where
  "est4 = est0\<lparr>states := Some [0, 1, 2, 3], delta_f := Some D4, d_delta_f := Some E4\<rparr>"

text \<open>
  The three-state table again, its rows in another order: the two samples of state 0 are
  in reverse time order and the origins are not sorted.
\<close>

definition tbl_rev :: "nat energy_table" where
  "tbl_rev = \<lparr> columns = [0, 1, 2],
               rows = [ \<lparr> time = 1, origin = 0, energies = [0, 2, 3] \<rparr>,
                        \<lparr> time = 0, origin = 2, energies = [5, 3, 0] \<rparr>,
                        \<lparr> time = 0, origin = 1, energies = [2, 0, 1] \<rparr>,
                        \<lparr> time = 0, origin = 0, energies = [0, 1, 4] \<rparr> ] \<rparr>"

section \<open>Auxiliary facts\<close>

lemma map2_map_same: "map2 f (map g xs) (map h xs) = map (\<lambda>x. f (g x) (h x)) xs"
  by (induction xs) simp_all

lemma mat_of_length [simp]: "length (mat_of n f) = n"
  by (simp add: mat_of_def)

lemma mat_of_ncols [simp]: "ncols (mat_of n f) = n"
  by (cases n) (simp_all add: mat_of_def ncols_def upt_conv_Cons del: upt_Suc)

lemma mat_of_nth: "r < n \<Longrightarrow> c < n \<Longrightarrow> mat_of n f ! r ! c = f r c"
  by (simp add: mat_of_def)

lemma mat_of_cong: "(\<And>r c. r < n \<Longrightarrow> c < n \<Longrightarrow> f r c = g r c) \<Longrightarrow> mat_of n f = mat_of n g"
  by (simp add: mat_of_def)

lemma np_zeros_mat: "np_zeros n n = mat_of n (\<lambda>r c. 0)"
  by (simp add: np_zeros_def mat_of_def map_replicate_const)

lemma np_diagflat_mat:
  "np_diagflat v k = mat_of (length v + k) (\<lambda>r c. if c = r + k \<and> r < length v then v ! r else 0)"
  by (simp add: np_diagflat_def mat_of_def)

lemma np_add_mat: "np_add (mat_of n f) (mat_of n g) = mat_of n (\<lambda>r c. f r c + g r c)"
  by (simp add: np_add_def mat_of_def map2_map_same)

lemma np_sub_mat: "np_sub (mat_of n f) (mat_of n g) = mat_of n (\<lambda>r c. f r c - g r c)"
  by (simp add: np_sub_def mat_of_def map2_map_same)

lemma np_sqrt_mat: "np_sqrt (mat_of n f) = mat_of n (\<lambda>r c. sqrt (f r c))"
  by (simp add: np_sqrt_def mat_of_def)

lemma np_T_mat: "np_T (mat_of n f) = mat_of n (\<lambda>r c. f c r)"
  unfolding np_T_def mat_of_ncols mat_of_length
  by (simp add: mat_of_def)

lemma sum_list_slice: "a \<le> b \<Longrightarrow> b \<le> length xs \<Longrightarrow> sum_list (py_slice xs a b) = (\<Sum>k = a..<b. (xs::real list) ! k)"
proof -
  assume ab: "a \<le> b" and b: "b \<le> length xs"
  have "py_slice xs a b = map (\<lambda>k. xs ! k) [a..<b]"
    unfolding py_slice_def using ab b
    by (intro nth_equalityI) simp_all
  then show ?thesis
    by (simp add: interv_sum_list_conv_sum_set_nat)
qed

lemma diag_sums_nth:
  assumes "i + j < length xs"
  shows "diag_sums xs j ! i = (\<Sum>k = i..<i + j + 1. xs ! k)"
proof -
  have "i < length xs - j" using assms by simp
  then have "diag_sums xs j ! i = xs ! i + sum_list (py_slice xs (i + 1) (i + j + 1))"
    by (simp add: diag_sums_def)
  also have "\<dots> = xs ! i + (\<Sum>k = i + 1..<i + j + 1. xs ! k)"
    using assms by (simp add: sum_list_slice)
  also have "\<dots> = (\<Sum>k = i..<i + j + 1. xs ! k)"
    by (simp add: sum.atLeast_Suc_lessThan)
  finally show ?thesis .
qed

lemma diag_sums_length [simp]: "length (diag_sums xs j) = length xs - j"
  by (simp add: diag_sums_def)

lemma diagflat_diag_sums:
  assumes "j < length xs"
  shows "np_diagflat (diag_sums xs j) (j + 1) = mat_of (length xs + 1) (diag_term xs j)"
proof -
  have len: "length (diag_sums xs j) + (j + 1) = length xs + 1"
    using assms by simp
  show ?thesis
    unfolding np_diagflat_mat len
    by (rule mat_of_cong) (simp add: diag_term_def)
qed

lemma fill_loop_mat:
  assumes "length ds = n" and "length dds = n" and "\<forall>j\<in>set js. j < n"
  shows "fill_loop ds dds js (mat_of (n + 1) f, mat_of (n + 1) g) =
           (mat_of (n + 1) (\<lambda>r c. f r c + (\<Sum>j\<leftarrow>js. diag_term ds j r c)),
            mat_of (n + 1) (\<lambda>r c. g r c + (\<Sum>j\<leftarrow>js. diag_term dds j r c)))"
  using assms(3)
proof (induction js arbitrary: f g)
  case Nil
  show ?case by simp
next
  case (Cons j js)
  have j: "j < length ds" "j < length dds"
    using Cons.prems assms(1,2) by simp_all
  have rest: "\<forall>j\<in>set js. j < n"
    using Cons.prems by simp
  have d1: "np_diagflat (diag_sums ds j) (j + 1) = mat_of (n + 1) (diag_term ds j)"
    using diagflat_diag_sums [OF j(1)] assms(1) by simp
  have d2: "np_diagflat (diag_sums dds j) (j + 1) = mat_of (n + 1) (diag_term dds j)"
    using diagflat_diag_sums [OF j(2)] assms(2) by simp
  show ?case
    by (simp only: fill_loop.simps Let_def d1 d2 np_add_mat Cons.IH [OF rest]
                   list.map sum_list.Cons add.assoc)
qed

lemma sum_diag_terms:
  assumes "length xs = n" and "r \<le> n" and "c \<le> n"
  shows "(\<Sum>j\<leftarrow>[0..<n]. diag_term xs j r c) = upper xs r c"
proof (cases "r < c")
  case True
  define j0 where "j0 = c - r - 1"
  have j0: "j0 < n" "r + j0 < length xs" "c = r + (j0 + 1)"
    using True assms by (simp_all add: j0_def)
  have each: "diag_term xs j r c = (if j0 = j then diag_sums xs j0 ! r else 0)" for j
    using j0 assms(1) by (auto simp: diag_term_def)
  have "(\<Sum>j\<leftarrow>[0..<n]. diag_term xs j r c) = (\<Sum>j\<in>{0..<n}. if j0 = j then diag_sums xs j0 ! r else 0)"
    by (simp add: interv_sum_list_conv_sum_set_nat each)
  also have "\<dots> = diag_sums xs j0 ! r"
    using j0(1) by simp
  also have "\<dots> = (\<Sum>k = r..<c. xs ! k)"
    using diag_sums_nth [OF j0(2)] j0(3) by simp
  finally show ?thesis
    using True by (simp add: upper_def)
next
  case False
  then have "diag_term xs j r c = 0" for j
    by (simp add: diag_term_def)
  then show ?thesis
    using False by (simp add: upper_def)
qed

lemma fill_loop_upper:
  assumes "length ds = n" and "length dds = n"
  shows "fill_loop ds dds [0..<n] (np_zeros (n + 1) (n + 1), np_zeros (n + 1) (n + 1)) =
           (mat_of (n + 1) (upper ds), mat_of (n + 1) (upper dds))"
proof -
  have "fill_loop ds dds [0..<n] (np_zeros (n + 1) (n + 1), np_zeros (n + 1) (n + 1)) =
          (mat_of (n + 1) (\<lambda>r c. 0 + (\<Sum>j\<leftarrow>[0..<n]. diag_term ds j r c)),
           mat_of (n + 1) (\<lambda>r c. 0 + (\<Sum>j\<leftarrow>[0..<n]. diag_term dds j r c)))"
    unfolding np_zeros_mat by (rule fill_loop_mat [OF assms]) simp
  moreover have "mat_of (n + 1) (\<lambda>r c. 0 + (\<Sum>j\<leftarrow>[0..<n]. diag_term ds j r c)) = mat_of (n + 1) (upper ds)"
    by (rule mat_of_cong) (simp add: sum_diag_terms [OF assms(1)])
  moreover have "mat_of (n + 1) (\<lambda>r c. 0 + (\<Sum>j\<leftarrow>[0..<n]. diag_term dds j r c)) = mat_of (n + 1) (upper dds)"
    by (rule mat_of_cong) (simp add: sum_diag_terms [OF assms(2)])
  ultimately show ?thesis by simp
qed

lemma get_group_absent: "i \<notin> origin ` set g \<Longrightarrow> get_group g i = Inl (KeyError i)"
proof -
  assume "i \<notin> origin ` set g"
  then have "filter (\<lambda>r. origin r = i) g = []"
    by (auto simp: filter_empty_conv)
  then show ?thesis by (simp add: get_group_def)
qed

lemma get_group_present: "i \<in> origin ` set g \<Longrightarrow> get_group g i = Inr (filter (\<lambda>r. origin r = i) g)"
proof -
  assume "i \<in> origin ` set g"
  then have "filter (\<lambda>r. origin r = i) g \<noteq> []"
    by (auto simp: filter_empty_conv)
  then show ?thesis by (cases "filter (\<lambda>r. origin r = i) g") (simp_all add: get_group_def)
qed

lemma series_sub_iloc:
  "series_sub (iloc_col uk a) (iloc_col uk b) = map (\<lambda>r. energies r ! a - energies r ! b) uk"
  by (simp add: series_sub_def iloc_col_def map2_map_same)

lemma pair_loop_step:
  "pair_loop solve self g sts (k # ks) (ds, dds) calls =
     (if sts ! k \<notin> origin ` set g then (Inl (KeyError (sts ! k)), calls)
      else if sts ! (k + 1) \<notin> origin ` set g then (Inl (KeyError (sts ! (k + 1))), calls)
      else case solve (pair_call self g sts k) of
             Inl e \<Rightarrow> (Inl (SolverError e), calls @ [pair_call self g sts k])
           | Inr (df, ddf) \<Rightarrow>
               pair_loop solve self g sts ks (ds @ [df], dds @ [ddf ^ 2])
                 (calls @ [pair_call self g sts k]))"
proof (cases "sts ! k \<in> origin ` set g")
  case False
  then show ?thesis by (simp add: get_group_absent)
next
  case k: True
  show ?thesis
  proof (cases "sts ! (k + 1) \<in> origin ` set g")
    case False
    then show ?thesis using k by (simp add: get_group_absent get_group_present)
  next
    case True
    then show ?thesis using k
      by (simp add: get_group_present series_sub_iloc pair_call_def spec_w_F_def spec_w_R_def
                    bar_kwargs_def Let_def split: sum.split)
  qed
qed

declare pair_loop.simps(2) [simp del]

lemma pair_loop_success:
  assumes "pair_loop solve self g sts ks (ds, dds) calls = (Inr (ds', dds'), calls')"
  shows "calls' = calls @ map (pair_call self g sts) ks \<and>
         (\<exists>rs. map solve (map (pair_call self g sts) ks) = map Inr rs \<and>
               ds' = ds @ map fst rs \<and> dds' = dds @ map (\<lambda>p. (snd p) ^ 2) rs) \<and>
         (\<forall>k\<in>set ks. sts ! k \<in> origin ` set g \<and> sts ! (k + 1) \<in> origin ` set g)"
  using assms
proof (induction ks arbitrary: ds dds calls)
  case Nil
  then show ?case by simp
next
  case (Cons k ks)
  from Cons.prems have pres: "sts ! k \<in> origin ` set g" "sts ! (k + 1) \<in> origin ` set g"
    by (auto simp: pair_loop_step split: if_splits)
  from Cons.prems pres obtain df ddf where
    sol: "solve (pair_call self g sts k) = Inr (df, ddf)" and
    rec: "pair_loop solve self g sts ks (ds @ [df], dds @ [ddf ^ 2]) (calls @ [pair_call self g sts k])
            = (Inr (ds', dds'), calls')"
    by (auto simp: pair_loop_step split: sum.splits)
  from Cons.IH [OF rec] obtain rs where
    c: "calls' = (calls @ [pair_call self g sts k]) @ map (pair_call self g sts) ks" and
    r: "map solve (map (pair_call self g sts) ks) = map Inr rs"
       "ds' = (ds @ [df]) @ map fst rs" "dds' = (dds @ [ddf ^ 2]) @ map (\<lambda>p. (snd p) ^ 2) rs" and
    p: "\<forall>k\<in>set ks. sts ! k \<in> origin ` set g \<and> sts ! (k + 1) \<in> origin ` set g"
    by blast
  have "map solve (map (pair_call self g sts) (k # ks)) = map Inr ((df, ddf) # rs) \<and>
        ds' = ds @ map fst ((df, ddf) # rs) \<and> dds' = dds @ map (\<lambda>p. (snd p) ^ 2) ((df, ddf) # rs)"
    using sol r by simp
  then have "\<exists>rs. map solve (map (pair_call self g sts) (k # ks)) = map Inr rs \<and>
        ds' = ds @ map fst rs \<and> dds' = dds @ map (\<lambda>p. (snd p) ^ 2) rs"
    by (rule exI)
  moreover have "calls' = calls @ map (pair_call self g sts) (k # ks)"
    using c by simp
  moreover have "\<forall>j\<in>set (k # ks). sts ! j \<in> origin ` set g \<and> sts ! (j + 1) \<in> origin ` set g"
    using p pres by simp
  ultimately show ?case by blast
qed

lemma pair_loop_calls:
  assumes "pair_loop solve self g sts ks (ds, dds) calls = (res, calls')"
  shows "\<exists>m\<le>length ks. calls' = calls @ map (pair_call self g sts) (take m ks)"
  using assms
proof (induction ks arbitrary: ds dds calls)
  case Nil
  then show ?case by simp
next
  case (Cons k ks)
  show ?case
  proof (cases "sts ! k \<in> origin ` set g \<and> sts ! (k + 1) \<in> origin ` set g")
    case False
    with Cons.prems have "calls' = calls"
      by (auto simp: pair_loop_step split: if_splits)
    then have "calls' = calls @ map (pair_call self g sts) (take 0 (k # ks))" by simp
    then show ?thesis by blast
  next
    case True
    show ?thesis
    proof (cases "solve (pair_call self g sts k)")
      case (Inl e)
      with True Cons.prems have "calls' = calls @ map (pair_call self g sts) (take 1 (k # ks))"
        by (simp add: pair_loop_step)
      moreover have "1 \<le> length (k # ks)" by simp
      ultimately show ?thesis by blast
    next
      case (Inr p)
      obtain df ddf where p: "p = (df, ddf)" by (cases p)
      from True Cons.prems Inr p have
        "pair_loop solve self g sts ks (ds @ [df], dds @ [ddf ^ 2]) (calls @ [pair_call self g sts k])
           = (res, calls')"
        by (simp add: pair_loop_step)
      from Cons.IH [OF this] obtain m where
        m: "m \<le> length ks" "calls' = (calls @ [pair_call self g sts k]) @ map (pair_call self g sts) (take m ks)"
        by blast
      then have "calls' = calls @ map (pair_call self g sts) (take (Suc m) (k # ks))" by simp
      moreover have "Suc m \<le> length (k # ks)" using m(1) by simp
      ultimately show ?thesis by blast
    qed
  qed
qed

lemma pair_loop_total:
  assumes "\<forall>c. \<exists>p. solve c = Inr p"
    and "\<forall>k\<in>set ks. sts ! k \<in> origin ` set g \<and> sts ! (k + 1) \<in> origin ` set g"
  shows "\<exists>acc' calls'. pair_loop solve self g sts ks (ds, dds) calls = (Inr acc', calls')"
  using assms(2)
proof (induction ks arbitrary: ds dds calls)
  case Nil
  show ?case by simp
next
  case (Cons k ks)
  obtain df ddf where sol: "solve (pair_call self g sts k) = Inr (df, ddf)"
    using assms(1) by (metis surj_pair)
  have rest: "\<forall>k\<in>set ks. sts ! k \<in> origin ` set g \<and> sts ! (k + 1) \<in> origin ` set g"
    using Cons.prems by simp
  from Cons.IH [OF rest, of "ds @ [df]" "dds @ [ddf ^ 2]" "calls @ [pair_call self g sts k]"]
  show ?case using Cons.prems sol by (simp add: pair_loop_step)
qed

lemma pair_call_cfg [simp]:
  "pair_call (self\<lparr>method_arg := m\<rparr>) g sts k = pair_call self g sts k"
  "pair_call (self\<lparr>initial_f_k := i\<rparr>) g sts k = pair_call self g sts k"
  "pair_call (self\<lparr>states := st\<rparr>) g sts k = pair_call self g sts k"
  by (simp_all add: pair_call_def bar_kwargs_def)

lemma pair_loop_cong_call:
  assumes "\<And>k. pair_call self2 g sts k = pair_call self g sts k"
  shows "pair_loop solve self2 g sts ks (ds, dds) calls = pair_loop solve self g sts ks (ds, dds) calls"
proof (induction ks arbitrary: ds dds calls)
  case Nil
  show ?case by simp
next
  case (Cons k ks)
  show ?case
    unfolding pair_loop_step assms
    by (simp add: Cons.IH split: sum.splits)
qed

lemma sort_index_columns [simp]: "columns (sort_index t) = columns t"
  by (simp add: sort_index_def)

lemma sort_index_set [simp]: "set (rows (sort_index t)) = set (rows t)"
  by (simp add: sort_index_def)

lemma sort_index_mset [simp]: "mset (rows (sort_index t)) = mset (rows t)"
  by (simp add: sort_index_def)

lemma fit_loop_fails:
  assumes "pair_loop solve (s\<lparr>states := Some (columns t)\<rparr>) (rows (sort_index t)) (columns t)
             [0..<length (columns t) - 1] ([], []) [] = (Inl e, calls)"
  shows "fit solve s t = (Inl e, s\<lparr>states := Some (columns t)\<rparr>, calls)"
  using assms by (simp add: fit_def Let_def)

lemma fit_loop_succeeds:
  assumes "pair_loop solve (s\<lparr>states := Some (columns t)\<rparr>) (rows (sort_index t)) (columns t)
             [0..<length (columns t) - 1] ([], []) [] = (Inr (ds, dds), calls)"
  shows "fit solve s t =
           (if columns t = [] then (Inl ValueError, s\<lparr>states := Some (columns t)\<rparr>, calls)
            else (Inr (), s\<lparr>states := Some (columns t),
                            delta_f := Some (delta_frame (columns t) ds),
                            d_delta_f := Some (d_delta_frame (columns t) dds)\<rparr>, calls))"
proof -
  from pair_loop_success [OF assms] obtain rs where
    rs: "map solve (map (pair_call (s\<lparr>states := Some (columns t)\<rparr>) (rows (sort_index t)) (columns t))
            [0..<length (columns t) - 1]) = map Inr rs"
        "ds = [] @ map fst rs" "dds = [] @ map (\<lambda>p. (snd p) ^ 2) rs"
    by blast
  have "length rs = length (columns t) - 1"
    using arg_cong [OF rs(1), of length] by simp
  then have len: "length ds = length (columns t) - 1" "length dds = length (columns t) - 1"
    using rs(2,3) by simp_all
  have len2: "length dds = length ds" using len by simp
  have fill: "fill_loop ds dds [0..<length ds]
                (np_zeros (length ds + 1) (length ds + 1), np_zeros (length ds + 1) (length ds + 1)) =
              (mat_of (length ds + 1) (upper ds), mat_of (length ds + 1) (upper dds))"
    by (rule fill_loop_upper) (simp_all add: len2)
  show ?thesis
  proof (cases "columns t = []")
    case True
    then have "length ds = 0" using len by simp
    then show ?thesis
      using True assms fill
      by (simp add: fit_def Let_def pd_DataFrame_def np_T_mat np_sub_mat)
  next
    case False
    then have K: "length ds + 1 = length (columns t)"
      using len by (cases "columns t") simp_all
    show ?thesis
      using False assms fill K
      by (simp add: fit_def Let_def pd_DataFrame_def np_T_mat np_sub_mat np_add_mat np_sqrt_mat
                    delta_frame_def d_delta_frame_def)
  qed
qed

lemma fit_ok:
  assumes "fit solve s t = (Inr (), s', calls)"
  shows "\<exists>rs. length rs + 1 = length (columns t) \<and>
              calls = map (pair_call s (rows (sort_index t)) (columns t)) [0..<length rs] \<and>
              map solve calls = map Inr rs \<and>
              set (columns t) \<subseteq> origin ` set (rows t) \<union> (if length (columns t) = 1 then set (columns t) else {}) \<and>
              s' = s\<lparr>states := Some (columns t),
                     delta_f := Some (delta_frame (columns t) (map fst rs)),
                     d_delta_f := Some (d_delta_frame (columns t) (map (\<lambda>p. (snd p) ^ 2) rs))\<rparr>"
proof -
  let ?s1 = "s\<lparr>states := Some (columns t)\<rparr>"
  let ?g = "rows (sort_index t)"
  let ?ks = "[0..<length (columns t) - 1]"
  obtain r cs where loop: "pair_loop solve ?s1 ?g (columns t) ?ks ([], []) [] = (r, cs)"
    by (cases "pair_loop solve ?s1 ?g (columns t) ?ks ([], []) []")
  show ?thesis
  proof (cases r)
    case (Inl e)
    with loop have "pair_loop solve ?s1 ?g (columns t) ?ks ([], []) [] = (Inl e, cs)" by simp
    from fit_loop_fails [OF this] assms show ?thesis by simp
  next
    case (Inr acc)
    obtain ds dds where acc: "acc = (ds, dds)" by (cases acc)
    have loop': "pair_loop solve ?s1 ?g (columns t) ?ks ([], []) [] = (Inr (ds, dds), cs)"
      using loop Inr acc by simp
    from fit_loop_succeeds [OF loop'] assms have
      ne: "columns t \<noteq> []" and cs: "calls = cs" and
      s': "s' = s\<lparr>states := Some (columns t), delta_f := Some (delta_frame (columns t) ds),
                    d_delta_f := Some (d_delta_frame (columns t) dds)\<rparr>"
      by (simp_all split: if_splits)
    from pair_loop_success [OF loop'] obtain rs where
      c: "cs = [] @ map (pair_call ?s1 ?g (columns t)) ?ks" and
      rs: "map solve (map (pair_call ?s1 ?g (columns t)) ?ks) = map Inr rs"
          "ds = [] @ map fst rs" "dds = [] @ map (\<lambda>p. (snd p) ^ 2) rs" and
      pres: "\<forall>k\<in>set ?ks. columns t ! k \<in> origin ` set ?g \<and> columns t ! (k + 1) \<in> origin ` set ?g"
      by blast
    have lrs: "length rs = length (columns t) - 1"
      using arg_cong [OF rs(1), of length] by simp
    then have K: "length rs + 1 = length (columns t)"
      using ne by (cases "columns t") simp_all
    have sub: "set (columns t) \<subseteq> origin ` set (rows t) \<union> (if length (columns t) = 1 then set (columns t) else {})"
    proof (cases "length (columns t) = 1")
      case True
      then show ?thesis by simp
    next
      case False
      have "l \<in> origin ` set (rows t)" if "l \<in> set (columns t)" for l
      proof -
        from that obtain i where i: "i < length (columns t)" "columns t ! i = l"
          by (auto simp: in_set_conv_nth)
        show ?thesis
        proof (cases i)
          case 0
          have "0 \<in> set ?ks" using False K by (cases rs) simp_all
          with pres i 0 show ?thesis by fastforce
        next
          case (Suc k)
          then have "k \<in> set ?ks" using i(1) by simp
          with pres i Suc show ?thesis by fastforce
        qed
      qed
      then show ?thesis by blast
    qed
    show ?thesis
      using K c cs rs s' lrs sub by (intro exI [of _ rs]) simp
  qed
qed

lemma fit_err:
  assumes "fit solve s t = (Inl e, s', calls)"
  shows "s' = s\<lparr>states := Some (columns t)\<rparr>"
proof -
  let ?s1 = "s\<lparr>states := Some (columns t)\<rparr>"
  let ?g = "rows (sort_index t)"
  let ?ks = "[0..<length (columns t) - 1]"
  obtain r cs where loop: "pair_loop solve ?s1 ?g (columns t) ?ks ([], []) [] = (r, cs)"
    by (cases "pair_loop solve ?s1 ?g (columns t) ?ks ([], []) []")
  show ?thesis
  proof (cases r)
    case (Inl e')
    with loop have "pair_loop solve ?s1 ?g (columns t) ?ks ([], []) [] = (Inl e', cs)" by simp
    from fit_loop_fails [OF this] assms show ?thesis by simp
  next
    case (Inr acc)
    obtain ds dds where acc: "acc = (ds, dds)" by (cases acc)
    have loop': "pair_loop solve ?s1 ?g (columns t) ?ks ([], []) [] = (Inr (ds, dds), cs)"
      using loop Inr acc by simp
    from fit_loop_succeeds [OF loop'] assms show ?thesis
      by (simp split: if_splits)
  qed
qed

lemma fit_calls:
  assumes "fit solve s t = (res, s', calls)"
  shows "\<exists>m\<le>length (columns t) - 1.
           calls = map (pair_call s (rows (sort_index t)) (columns t)) [0..<m]"
proof -
  let ?s1 = "s\<lparr>states := Some (columns t)\<rparr>"
  let ?g = "rows (sort_index t)"
  let ?ks = "[0..<length (columns t) - 1]"
  obtain r cs where loop: "pair_loop solve ?s1 ?g (columns t) ?ks ([], []) [] = (r, cs)"
    by (cases "pair_loop solve ?s1 ?g (columns t) ?ks ([], []) []")
  have cs: "calls = cs"
  proof (cases r)
    case (Inl e')
    with loop have "pair_loop solve ?s1 ?g (columns t) ?ks ([], []) [] = (Inl e', cs)" by simp
    from fit_loop_fails [OF this] assms show ?thesis by simp
  next
    case (Inr acc)
    obtain ds dds where acc: "acc = (ds, dds)" by (cases acc)
    have loop': "pair_loop solve ?s1 ?g (columns t) ?ks ([], []) [] = (Inr (ds, dds), cs)"
      using loop Inr acc by simp
    from fit_loop_succeeds [OF loop'] assms show ?thesis
      by (simp split: if_splits)
  qed
  from pair_loop_calls [OF loop] obtain m where
    m: "m \<le> length ?ks" "cs = [] @ map (pair_call ?s1 ?g (columns t)) (take m ?ks)"
    by blast
  have "take m ?ks = [0..<m]"
    using m(1) by (simp add: take_upt)
  with m cs show ?thesis by auto
qed

lemma upper_adjacent [simp]: "upper xs k (Suc k) = xs ! k"
  by (simp add: upper_def)

lemma upper_lower [simp]: "c \<le> r \<Longrightarrow> upper xs r c = 0"
  by (simp add: upper_def)

lemma upper_sum: "r < c \<Longrightarrow> upper xs r c = (\<Sum>k = r..<c. xs ! k)"
  by (simp add: upper_def)

lemma upper_nonneg:
  assumes "\<forall>k<length xs. 0 \<le> xs ! k" and "c \<le> length xs"
  shows "0 \<le> upper xs r c"
proof (cases "r < c")
  case True
  have "0 \<le> (\<Sum>k = r..<c. xs ! k)"
    using assms by (intro sum_nonneg) simp
  then show ?thesis using True by (simp add: upper_def)
next
  case False
  then show ?thesis by simp
qed

lemma delta_frame_entry:
  "i < length sts \<Longrightarrow> j < length sts \<Longrightarrow>
   data (delta_frame sts ds) ! i ! j = upper ds i j - upper ds j i"
  by (simp add: delta_frame_def mat_of_nth)

lemma d_delta_frame_entry:
  "i < length sts \<Longrightarrow> j < length sts \<Longrightarrow>
   data (d_delta_frame sts dds) ! i ! j = sqrt (upper dds i j + upper dds j i)"
  by (simp add: d_delta_frame_def mat_of_nth)

lemma solve_nth:
  assumes "map solve calls = map Inr rs" and "k < length rs"
  shows "solve (calls ! k) = Inr (rs ! k)"
proof -
  have "length calls = length rs"
    using arg_cong [OF assms(1), of length] by simp
  then have "map solve calls ! k = solve (calls ! k)"
    using assms(2) by simp
  then show ?thesis using assms by simp
qed

lemma sqrt_vals: "sqrt 16 = 4" "sqrt 9 = 3" "sqrt 25 = 5"
  by (rule real_sqrt_unique; simp)+

lemma cols3: "columns tbl3 = [0, 1, 2]"
  by (simp add: tbl3_def)

lemma loop3:
  "pair_loop solver_demo (est0\<lparr>states := Some (columns tbl3)\<rparr>) (rows (sort_index tbl3))
     (columns tbl3) [0..<length (columns tbl3) - 1] ([], []) [] = (Inr ([1, -2], [16, 9]), calls3)"
  by (simp add: upt_conv_Cons pair_loop_step pair_call_def spec_w_F_def spec_w_R_def bar_kwargs_def
                solver_demo_def sort_index_def tbl3_def est0_def BAR_init_def calls3_def
                cfg_kwargs_def)

lemma frames3:
  "delta_frame [0, 1, 2::nat] [1, -2] =
     \<lparr> data = [[0, 1, -1], [-1, 0, -2], [1, 2, 0]], index = [0, 1, 2], df_columns = [0, 1, 2] \<rparr>"
  "d_delta_frame [0, 1, 2::nat] [16, 9] =
     \<lparr> data = [[0, 4, 5], [4, 0, 3], [5, 3, 0]], index = [0, 1, 2], df_columns = [0, 1, 2] \<rparr>"
  by (simp_all add: delta_frame_def d_delta_frame_def mat_of_def upper_def upt_conv_Cons
                    sum.atLeast_Suc_lessThan sqrt_vals)

lemma fit_tbl3:
  "fit solver_demo est0 tbl3 =
     (Inr (),
      est0\<lparr>states := Some [0, 1, 2],
           delta_f := Some \<lparr> data = [[0, 1, -1], [-1, 0, -2], [1, 2, 0]],
                              index = [0, 1, 2], df_columns = [0, 1, 2] \<rparr>,
           d_delta_f := Some \<lparr> data = [[0, 4, 5], [4, 0, 3], [5, 3, 0]],
                                index = [0, 1, 2], df_columns = [0, 1, 2] \<rparr>\<rparr>,
      calls3)"
  unfolding fit_loop_succeeds [OF loop3] cols3 frames3 by simp

lemmas run_defs = upt_conv_Cons pair_loop_step pair_call_def spec_w_F_def spec_w_R_def bar_kwargs_def
  solver_demo_def solver_fail_def sort_index_def est0_def BAR_init_def cfg_kwargs_def

lemmas frame_defs = delta_frame_def d_delta_frame_def mat_of_def upper_def upt_conv_Cons
  sum.atLeast_Suc_lessThan sqrt_vals

lemma loop_one:
  "pair_loop solver_fail (est0\<lparr>states := Some (columns tbl_one)\<rparr>) (rows (sort_index tbl_one))
     (columns tbl_one) [0..<length (columns tbl_one) - 1] ([], []) [] = (Inr ([], []), [])"
  by (simp add: tbl_one_def)

lemma fit_tbl_one:
  "fit solver_fail est0 tbl_one =
     (Inr (),
      est0\<lparr>states := Some [0],
           delta_f := Some \<lparr> data = [[0]], index = [0], df_columns = [0] \<rparr>,
           d_delta_f := Some \<lparr> data = [[0]], index = [0], df_columns = [0] \<rparr>\<rparr>,
      [])"
  unfolding fit_loop_succeeds [OF loop_one]
  by (simp add: tbl_one_def frame_defs)

lemma loop_gap:
  "pair_loop solver_demo (est0\<lparr>states := Some (columns tbl_gap)\<rparr>) (rows (sort_index tbl_gap))
     (columns tbl_gap) [0..<length (columns tbl_gap) - 1] ([], []) [] =
   (Inl (KeyError 2), [\<lparr> w_F = [1], w_R = [2], kwargs = cfg_kwargs \<rparr>])"
  by (simp add: run_defs tbl_gap_def)

lemma fit_tbl_gap:
  "fit solver_demo est0 tbl_gap =
     (Inl (KeyError 2), est0\<lparr>states := Some [0, 1, 2]\<rparr>,
      [\<lparr> w_F = [1], w_R = [2], kwargs = cfg_kwargs \<rparr>])"
  unfolding fit_loop_fails [OF loop_gap] by (simp add: tbl_gap_def)

lemma loop_fail3:
  "pair_loop solver_fail (est0\<lparr>states := Some (columns tbl3)\<rparr>) (rows (sort_index tbl3))
     (columns tbl3) [0..<length (columns tbl3) - 1] ([], []) [] =
   (Inl (SolverError ()), [\<lparr> w_F = [1, 2], w_R = [2], kwargs = cfg_kwargs \<rparr>])"
  by (simp add: run_defs tbl3_def)

lemma fit_fail3:
  "fit solver_fail est0 tbl3 =
     (Inl (SolverError ()), est0\<lparr>states := Some [0, 1, 2]\<rparr>,
      [\<lparr> w_F = [1, 2], w_R = [2], kwargs = cfg_kwargs \<rparr>])"
  unfolding fit_loop_fails [OF loop_fail3] by (simp add: tbl3_def)

lemma loop_extra:
  "pair_loop solver_demo (est0\<lparr>states := Some (columns tbl_extra)\<rparr>) (rows (sort_index tbl_extra))
     (columns tbl_extra) [0..<length (columns tbl_extra) - 1] ([], []) [] =
   (Inr ([-1], [9]), [\<lparr> w_F = [1], w_R = [2], kwargs = cfg_kwargs \<rparr>])"
  by (simp add: run_defs tbl_extra_def)

lemma fit_tbl_extra:
  "fit solver_demo est0 tbl_extra =
     (Inr (),
      est0\<lparr>states := Some [0, 1],
           delta_f := Some \<lparr> data = [[0, -1], [1, 0]], index = [0, 1], df_columns = [0, 1] \<rparr>,
           d_delta_f := Some \<lparr> data = [[0, 3], [3, 0]], index = [0, 1], df_columns = [0, 1] \<rparr>\<rparr>,
      [\<lparr> w_F = [1], w_R = [2], kwargs = cfg_kwargs \<rparr>])"
  unfolding fit_loop_succeeds [OF loop_extra]
  by (simp add: tbl_extra_def frame_defs)

lemma pair_loop_error:
  assumes "pair_loop solve self g sts ks (ds, dds) calls = (Inl e, calls')"
  shows "(\<exists>k\<in>set ks. (e = KeyError (sts ! k) \<and> sts ! k \<notin> origin ` set g) \<or>
                     (e = KeyError (sts ! (k + 1)) \<and> sts ! (k + 1) \<notin> origin ` set g)) \<or>
         (\<exists>x. e = SolverError x \<and> calls' \<noteq> [] \<and> solve (last calls') = Inl x)"
  using assms
proof (induction ks arbitrary: ds dds calls)
  case Nil
  then show ?case by simp
next
  case (Cons k ks)
  show ?case
  proof (cases "sts ! k \<in> origin ` set g \<and> sts ! (k + 1) \<in> origin ` set g")
    case False
    with Cons.prems have "(e = KeyError (sts ! k) \<and> sts ! k \<notin> origin ` set g) \<or>
                          (e = KeyError (sts ! (k + 1)) \<and> sts ! (k + 1) \<notin> origin ` set g)"
      by (auto simp: pair_loop_step split: if_splits)
    then show ?thesis by simp
  next
    case True
    show ?thesis
    proof (cases "solve (pair_call self g sts k)")
      case (Inl x)
      with True Cons.prems have "e = SolverError x" "calls' = calls @ [pair_call self g sts k]"
        by (simp_all add: pair_loop_step)
      with Inl show ?thesis by simp
    next
      case (Inr p)
      obtain df ddf where p: "p = (df, ddf)" by (cases p)
      from True Cons.prems Inr p have
        "pair_loop solve self g sts ks (ds @ [df], dds @ [ddf ^ 2]) (calls @ [pair_call self g sts k])
           = (Inl e, calls')"
        by (simp add: pair_loop_step)
      from Cons.IH [OF this] show ?thesis by auto
    qed
  qed
qed

lemma fit_error_cause:
  assumes "fit solve s t = (Inl e, s', calls)"
  shows "(e = ValueError \<and> columns t = []) \<or>
         (\<exists>l\<in>set (columns t). e = KeyError l \<and> l \<notin> origin ` set (rows t)) \<or>
         (\<exists>x. e = SolverError x \<and> calls \<noteq> [] \<and> solve (last calls) = Inl x)"
proof -
  let ?s1 = "s\<lparr>states := Some (columns t)\<rparr>"
  let ?g = "rows (sort_index t)"
  let ?ks = "[0..<length (columns t) - 1]"
  obtain r cs where loop: "pair_loop solve ?s1 ?g (columns t) ?ks ([], []) [] = (r, cs)"
    by (cases "pair_loop solve ?s1 ?g (columns t) ?ks ([], []) []")
  show ?thesis
  proof (cases r)
    case (Inl e')
    with loop have l: "pair_loop solve ?s1 ?g (columns t) ?ks ([], []) [] = (Inl e', cs)" by simp
    from fit_loop_fails [OF l] assms have eq: "e' = e" "cs = calls" by simp_all
    from pair_loop_error [OF l] show ?thesis
    proof
      assume "\<exists>k\<in>set ?ks. (e' = KeyError (columns t ! k) \<and> columns t ! k \<notin> origin ` set ?g) \<or>
                (e' = KeyError (columns t ! (k + 1)) \<and> columns t ! (k + 1) \<notin> origin ` set ?g)"
      then obtain k where k: "k \<in> set ?ks" and
        c: "(e' = KeyError (columns t ! k) \<and> columns t ! k \<notin> origin ` set ?g) \<or>
            (e' = KeyError (columns t ! (k + 1)) \<and> columns t ! (k + 1) \<notin> origin ` set ?g)"
        by blast
      from k have "columns t ! k \<in> set (columns t)" "columns t ! (k + 1) \<in> set (columns t)"
        by simp_all
      with c eq have "\<exists>l\<in>set (columns t). e = KeyError l \<and> l \<notin> origin ` set (rows t)"
        by auto
      then show ?thesis by blast
    next
      assume "\<exists>x. e' = SolverError x \<and> cs \<noteq> [] \<and> solve (last cs) = Inl x"
      with eq show ?thesis by simp
    qed
  next
    case (Inr acc)
    with loop have "pair_loop solve ?s1 ?g (columns t) ?ks ([], []) [] = (Inr (fst acc, snd acc), cs)"
      by simp
    from fit_loop_succeeds [OF this] assms show ?thesis
      by (simp split: if_splits)
  qed
qed

lemma fit_tbl3_run: "fit solver_demo est0 tbl3 = (Inr (), est3, calls3)"
  by (simp add: fit_tbl3 est3_def D3_def E3_def)

lemma fit_tbl3_failed: "fit solver_fail est0 tbl3 = (Inl (SolverError ()), est3_failed, [calls3 ! 0])"
  by (simp add: fit_fail3 est3_failed_def calls3_def)

lemma fit_tbl_gap_run: "fit solver_demo est0 tbl_gap = (Inl (KeyError 2), est3_failed, [call_12])"
  by (simp add: fit_tbl_gap est3_failed_def call_12_def)

lemma fit_tbl_one_run: "fit solver_fail est0 tbl_one = (Inr (), est_one, [])"
  by (simp add: fit_tbl_one est_one_def zero_frame_def)

lemma fit_tbl_extra_run: "fit solver_demo est0 tbl_extra = (Inr (), est_extra, [call_12])"
  by (simp add: fit_tbl_extra est_extra_def call_12_def)

section \<open>Facts about the sorted table and about float64 arithmetic\<close>

lemma insort_key_order_cong:
  assumes "\<And>y. y \<in> set ys \<Longrightarrow> (f x \<le> f y) = (g x \<le> g y)"
  shows "insort_key f x ys = insort_key g x ys"
  using assms by (induction ys) simp_all

lemma sort_key_order_cong:
  assumes "\<And>x y. x \<in> set xs \<Longrightarrow> y \<in> set xs \<Longrightarrow> (f x \<le> f y) = (g x \<le> g y)"
  shows "sort_key f xs = sort_key g xs"
  using assms
proof (induction xs)
  case Nil
  show ?case by simp
next
  case (Cons x xs)
  have "sort_key f xs = sort_key g xs"
    using Cons.prems by (intro Cons.IH) simp_all
  moreover have "insort_key f x (sort_key g xs) = insort_key g x (sort_key g xs)"
    using Cons.prems by (intro insort_key_order_cong) simp
  ultimately show ?case by simp
qed

lemma group_of_sorted:
  "filter (\<lambda>r. origin r = l) (rows (sort_index t)) =
   sort_key time (filter (\<lambda>r. origin r = l) (rows t))"
proof -
  have "filter (\<lambda>r. origin r = l) (rows (sort_index t)) =
        sort_key (\<lambda>r. (origin r, time r)) (filter (\<lambda>r. origin r = l) (rows t))"
    by (simp add: sort_index_def filter_sort)
  also have "\<dots> = sort_key time (filter (\<lambda>r. origin r = l) (rows t))"
    by (rule sort_key_order_cong) auto
  finally show ?thesis .
qed

lemma sorted_by_origin: "sorted (map origin (rows (sort_index t)))"
proof -
  have "sorted (map (\<lambda>r. (origin r, time r)) (rows (sort_index t)))"
    by (simp add: sort_index_def)
  then have "sorted_wrt (\<lambda>a b. (origin a, time a) \<le> (origin b, time b)) (rows (sort_index t))"
    by (simp add: sorted_map)
  then have "sorted_wrt (\<lambda>a b. origin a \<le> origin b) (rows (sort_index t))"
    by (rule sorted_wrt_mono_rel [rotated]) (auto simp: less_eq_prod_def)
  then show ?thesis by (simp add: sorted_map)
qed

lemma loop_rev:
  "pair_loop solver_demo (est0\<lparr>states := Some (columns tbl_rev)\<rparr>) (rows (sort_index tbl_rev))
     (columns tbl_rev) [0..<length (columns tbl_rev) - 1] ([], []) [] = (Inr ([1, -2], [16, 9]), calls3)"
  by (simp add: run_defs tbl_rev_def calls3_def)

lemma cols_rev: "columns tbl_rev = [0, 1, 2]"
  by (simp add: tbl_rev_def)

lemma fit_tbl_rev_run: "fit solver_demo est0 tbl_rev = (Inr (), est3, calls3)"
  unfolding fit_loop_succeeds [OF loop_rev] cols_rev frames3 est3_def D3_def E3_def by simp

lemma f64_zero [simp]: "f64 0 = 0"
  by (simp add: f64_def)

lemma f64_minus: "f64 (- x) = - f64 x"
  by (simp add: f64_def sgn_minus)

lemma round_half_even_int [simp]: "round_half_even (of_int m) = m"
  by (simp add: round_half_even_def)

lemma round_half_even_bounds: "\<lfloor>y\<rfloor> \<le> round_half_even y \<and> round_half_even y \<le> \<lfloor>y\<rfloor> + 1"
  by (simp add: round_half_even_def)

lemma round_half_even_near:
  assumes "of_int m - 1 / 2 < y" and "y < of_int m + 1 / 2"
  shows "round_half_even y = m"
proof (cases "of_int m \<le> y")
  case True
  then have "\<lfloor>y\<rfloor> = m" using assms(2) by linarith
  then show ?thesis using assms(2) by (simp add: round_half_even_def)
next
  case False
  then have "\<lfloor>y\<rfloor> = m - 1" using assms(1) by linarith
  then show ?thesis using assms(1) False by (simp add: round_half_even_def)
qed

lemma f64_fix:
  assumes "2 ^ 52 \<le> m" and "m \<le> 2 ^ 53"
  shows "f64 (of_int m * 2 powr of_int e) = of_int m * 2 powr of_int e"
proof -
  let ?r = "of_int m * 2 powr of_int e :: real"
  have "(0::int) < 2 ^ 52" by simp
  then have mpos: "0 < m" using assms(1) by linarith
  have rpos: "0 < ?r" using mpos by simp
  have m52: "(2::real) ^ 52 \<le> of_int m" using assms(1) by (metis of_int_le_iff of_int_numeral of_int_power)
  have m53: "of_int m \<le> (2::real) ^ 53" using assms(2) by (metis of_int_le_iff of_int_numeral of_int_power)
  show ?thesis
  proof (cases "m = 2 ^ 53")
    case True
    have r: "?r = 2 powr of_int (e + 53)"
      using True by (simp add: powr_add powr_realpow)
    have fl: "\<lfloor>log 2 \<bar>?r\<bar>\<rfloor> - 52 = e + 1"
      unfolding r by simp
    have e1: "(2::real) powr of_int (e + 1) = 2 * 2 powr of_int e"
      by (simp add: powr_add)
    have q: "\<bar>?r\<bar> / 2 powr of_int (e + 1) = of_int (2 ^ 52)"
      unfolding e1 using True by simp
    have rne: "?r \<noteq> 0"
      using rpos by linarith
    have sg: "sgn ?r = 1"
      by (rule sgn_pos [OF rpos])
    have "f64 ?r = of_int (round_half_even (of_int (2 ^ 52))) * 2 powr of_int (e + 1)"
      unfolding f64_def by (simp only: fl q rne sg if_False mult_1)
    also have "\<dots> = ?r"
      unfolding round_half_even_int e1 using True by simp
    finally show ?thesis .
  next
    case False
    then have lt: "of_int m < (2::real) ^ 53"
      using assms(2) by (metis less_le of_int_less_iff of_int_numeral of_int_power)
    have lo: "2 powr of_int (e + 52) \<le> ?r"
      using m52 by (simp add: powr_add powr_realpow)
    have hi: "?r < 2 powr (of_int (e + 52) + 1)"
      using lt by (simp add: powr_add powr_realpow)
    have "\<lfloor>log 2 ?r\<rfloor> = e + 52"
      using lo hi rpos by (subst floor_log_eq_powr_iff) simp_all
    then show ?thesis
      using rpos by (simp add: f64_def)
  qed
qed

lemma f64_pos_form:
  assumes "0 < x"
  shows "\<exists>m e. 2 ^ 52 \<le> m \<and> m \<le> 2 ^ 53 \<and> f64 x = of_int m * 2 powr of_int e"
proof -
  define e where "e = \<lfloor>log 2 x\<rfloor> - 52"
  define y where "y = x / 2 powr of_int e"
  have "\<lfloor>log 2 x\<rfloor> = e + 52" by (simp add: e_def)
  then have b: "2 powr of_int (e + 52) \<le> x" "x < 2 powr (of_int (e + 52) + 1)"
    using assms floor_log_eq_powr_iff [of x 2 "e + 52"] by simp_all
  have y52: "2 ^ 52 \<le> y"
  proof -
    have "2 powr of_int e * 2 ^ 52 \<le> x" using b(1) by (simp add: powr_add powr_realpow)
    then show ?thesis unfolding y_def by (simp add: pos_le_divide_eq mult.commute)
  qed
  have y53: "y < 2 ^ 53"
  proof -
    have "x < 2 powr of_int e * 2 ^ 53" using b(2) by (simp add: powr_add powr_realpow)
    then show ?thesis unfolding y_def by (simp add: pos_divide_less_eq mult.commute)
  qed
  have f1: "2 ^ 52 \<le> \<lfloor>y\<rfloor>" using y52 by (simp add: le_floor_iff)
  have f2: "\<lfloor>y\<rfloor> < 2 ^ 53" using y53 by (simp add: floor_less_iff)
  have "2 ^ 52 \<le> round_half_even y \<and> round_half_even y \<le> 2 ^ 53"
    using round_half_even_bounds [of y] f1 f2 by linarith
  moreover have "f64 x = of_int (round_half_even y) * 2 powr of_int e"
    using assms by (simp add: f64_def y_def e_def)
  ultimately show ?thesis by blast
qed

lemma f64_idem_pos: "0 < x \<Longrightarrow> f64 (f64 x) = f64 x"
  using f64_pos_form [of x] f64_fix by auto

lemma f64_idem [simp]: "f64 (f64 x) = f64 x"
proof -
  consider "x = 0" | "0 < x" | "x < 0" by linarith
  then show ?thesis
  proof cases
    case 1
    then show ?thesis by simp
  next
    case 2
    then show ?thesis by (rule f64_idem_pos)
  next
    case 3
    then have "f64 (f64 (- x)) = f64 (- x)" by (intro f64_idem_pos) simp
    then show ?thesis by (simp add: f64_minus)
  qed
qed

lemma f64_eval:
  assumes "2 ^ 52 \<le> x * 2 ^ k" and "x * 2 ^ k < 2 ^ 53"
  shows "f64 x = of_int (round_half_even (x * 2 ^ k)) / 2 ^ k"
proof -
  have xpos: "0 < x"
  proof (rule ccontr)
    assume "\<not> 0 < x"
    then have "x * 2 ^ k \<le> 0" by (simp add: mult_le_0_iff)
    moreover have "(0::real) < 2 ^ 52" by simp
    ultimately show False using assms(1) by linarith
  qed
  have p: "2 powr of_int (- int k) = 1 / (2::real) ^ k"
    by (simp add: powr_minus powr_realpow divide_inverse)
  have lo: "2 powr of_int (52 - int k) \<le> x"
  proof -
    have "2 powr of_int (52 - int k) = 2 ^ 52 / (2::real) ^ k"
      by (simp add: powr_diff powr_realpow)
    also have "\<dots> \<le> x" using assms(1) by (simp add: pos_divide_le_eq)
    finally show ?thesis .
  qed
  have hi: "x < 2 powr (of_int (52 - int k) + 1)"
  proof -
    have "2 powr (of_int (52 - int k) + 1) = 2 ^ 53 / (2::real) ^ k"
      by (simp add: powr_diff powr_add powr_realpow)
    moreover have "x < 2 ^ 53 / (2::real) ^ k" using assms(2) by (simp add: pos_less_divide_eq)
    ultimately show ?thesis by simp
  qed
  have "\<lfloor>log 2 x\<rfloor> = 52 - int k"
    using lo hi xpos by (subst floor_log_eq_powr_iff) simp_all
  then have "\<lfloor>log 2 \<bar>x\<bar>\<rfloor> - 52 = - int k" using xpos by simp
  then show ?thesis
    using xpos p by (simp add: f64_def)
qed

lemma sqrt_scaled: "sqrt x * 2 ^ 52 = sqrt (x * 2 ^ 104)"
proof -
  have "sqrt ((2::real) ^ 104) = 2 ^ 52"
    by (rule real_sqrt_unique) simp_all
  then show ?thesis by (simp add: real_sqrt_mult)
qed

lemma np_add_f64_mat:
  "np_add_f64 (mat_of n f) (mat_of n g) = mat_of n (\<lambda>r c. f64 (f r c + g r c))"
  by (simp add: np_add_f64_def mat_of_def map2_map_same)

lemma np_sub_f64_mat:
  "np_sub_f64 (mat_of n f) (mat_of n g) = mat_of n (\<lambda>r c. f64 (f r c - g r c))"
  by (simp add: np_sub_f64_def mat_of_def map2_map_same)

lemma np_sqrt_f64_mat: "np_sqrt_f64 (mat_of n f) = mat_of n (\<lambda>r c. f64 (sqrt (f r c)))"
  by (simp add: np_sqrt_f64_def mat_of_def)

lemma slice_as_map:
  assumes "a \<le> b" and "b \<le> length xs"
  shows "py_slice xs a b = map (\<lambda>k. xs ! k) [a..<b]"
  unfolding py_slice_def using assms by (intro nth_equalityI) simp_all

lemma diag_sums_f64_length [simp]: "length (diag_sums_f64 npsum xs j) = length xs - j"
  by (simp add: diag_sums_f64_def)

lemma diag_sums_f64_nth:
  assumes "i + j < length xs"
  shows "diag_sums_f64 npsum xs j ! i = upper_f64 npsum xs i (i + j + 1)"
proof -
  have "i < length xs - j" using assms by simp
  then have "diag_sums_f64 npsum xs j ! i = f64 (xs ! i + npsum (py_slice xs (i + 1) (i + j + 1)))"
    by (simp add: diag_sums_f64_def)
  moreover have "py_slice xs (i + 1) (i + j + 1) = map (\<lambda>k. xs ! k) [i + 1..<i + j + 1]"
    using assms by (intro slice_as_map) simp_all
  ultimately show ?thesis by (simp add: upper_f64_def)
qed

lemma upper_f64_fixed [simp]: "f64 (upper_f64 npsum xs r c) = upper_f64 npsum xs r c"
  by (simp add: upper_f64_def)

lemma diagflat_diag_sums_f64:
  assumes "j < length xs"
  shows "np_diagflat (diag_sums_f64 npsum xs j) (j + 1) =
         mat_of (length xs + 1) (diag_term_f64 npsum xs j)"
proof -
  have len: "length (diag_sums_f64 npsum xs j) + (j + 1) = length xs + 1"
    using assms by simp
  show ?thesis
    unfolding np_diagflat_mat len
    by (rule mat_of_cong) (simp add: diag_term_f64_def)
qed

lemma fill_loop_f64_mat:
  assumes "length ds = n" and "length dds = n" and "\<forall>j\<in>set js. j < n"
  shows "fill_loop_f64 npsum ds dds js (mat_of (n + 1) f, mat_of (n + 1) g) =
           (mat_of (n + 1) (\<lambda>r c. foldl (\<lambda>v j. f64 (v + diag_term_f64 npsum ds j r c)) (f r c) js),
            mat_of (n + 1) (\<lambda>r c. foldl (\<lambda>v j. f64 (v + diag_term_f64 npsum dds j r c)) (g r c) js))"
  using assms(3)
proof (induction js arbitrary: f g)
  case Nil
  show ?case by simp
next
  case (Cons j js)
  have j: "j < length ds" "j < length dds"
    using Cons.prems assms(1,2) by simp_all
  have rest: "\<forall>j\<in>set js. j < n"
    using Cons.prems by simp
  have d1: "np_diagflat (diag_sums_f64 npsum ds j) (j + 1) = mat_of (n + 1) (diag_term_f64 npsum ds j)"
    using diagflat_diag_sums_f64 [OF j(1)] assms(1) by simp
  have d2: "np_diagflat (diag_sums_f64 npsum dds j) (j + 1) = mat_of (n + 1) (diag_term_f64 npsum dds j)"
    using diagflat_diag_sums_f64 [OF j(2)] assms(2) by simp
  show ?case
    by (simp only: fill_loop_f64.simps Let_def d1 d2 np_add_f64_mat Cons.IH [OF rest] foldl_Cons)
qed

lemma foldl_f64_zeros:
  assumes "\<forall>j\<in>set js. g j = 0" and "f64 a = a"
  shows "foldl (\<lambda>v j. f64 (v + g j)) a js = a"
  using assms by (induction js) simp_all

lemma foldl_f64_single:
  assumes "j0 < n" and "\<forall>j. j \<noteq> j0 \<longrightarrow> g j = 0" and "f64 (g j0) = g j0"
  shows "foldl (\<lambda>v j. f64 (v + g j)) 0 [0..<n] = g j0"
proof -
  have split: "[0..<n] = [0..<j0] @ j0 # [Suc j0..<n]"
    using assms(1) by (metis le0 upt_add_eq_append upt_conv_Cons le_add_diff_inverse less_imp_le_nat add.left_neutral)
  have a: "foldl (\<lambda>v j. f64 (v + g j)) 0 [0..<j0] = 0"
    using assms(2) by (intro foldl_f64_zeros) simp_all
  have b: "foldl (\<lambda>v j. f64 (v + g j)) (g j0) [Suc j0..<n] = g j0"
    using assms(2,3) by (intro foldl_f64_zeros) simp_all
  show ?thesis
    unfolding split by (simp add: a b assms(3))
qed

lemma foldl_diag_terms_f64:
  assumes "length xs = n" and "r \<le> n" and "c \<le> n"
  shows "foldl (\<lambda>v j. f64 (v + diag_term_f64 npsum xs j r c)) 0 [0..<n] = upper_f64 npsum xs r c"
proof (cases "r < c")
  case True
  define j0 where "j0 = c - r - 1"
  have j0: "j0 < n" "r + j0 < length xs" "c = r + j0 + 1"
    using True assms by (simp_all add: j0_def)
  have other: "\<forall>j. j \<noteq> j0 \<longrightarrow> diag_term_f64 npsum xs j r c = 0"
    using j0 by (auto simp: diag_term_f64_def)
  have rj: "r < length xs - j0"
    using j0(2) by simp
  have at: "diag_term_f64 npsum xs j0 r c = upper_f64 npsum xs r c"
    using j0(3) rj diag_sums_f64_nth [OF j0(2), of npsum] by (simp add: diag_term_f64_def)
  have "foldl (\<lambda>v j. f64 (v + diag_term_f64 npsum xs j r c)) 0 [0..<n] = diag_term_f64 npsum xs j0 r c"
    using j0(1) other by (rule foldl_f64_single) (simp add: at)
  then show ?thesis by (simp add: at)
next
  case False
  then have z: "\<forall>j\<in>set [0..<n]. diag_term_f64 npsum xs j r c = 0"
    by (simp add: diag_term_f64_def)
  have "foldl (\<lambda>v j. f64 (v + diag_term_f64 npsum xs j r c)) 0 [0..<n] = 0"
    using z by (rule foldl_f64_zeros) simp
  then show ?thesis using False by (simp add: upper_f64_def)
qed

lemma fill_loop_f64_upper:
  assumes "length ds = n" and "length dds = n"
  shows "fill_loop_f64 npsum ds dds [0..<n] (np_zeros (n + 1) (n + 1), np_zeros (n + 1) (n + 1)) =
           (mat_of (n + 1) (upper_f64 npsum ds), mat_of (n + 1) (upper_f64 npsum dds))"
proof -
  have "fill_loop_f64 npsum ds dds [0..<n] (np_zeros (n + 1) (n + 1), np_zeros (n + 1) (n + 1)) =
          (mat_of (n + 1) (\<lambda>r c. foldl (\<lambda>v j. f64 (v + diag_term_f64 npsum ds j r c)) 0 [0..<n]),
           mat_of (n + 1) (\<lambda>r c. foldl (\<lambda>v j. f64 (v + diag_term_f64 npsum dds j r c)) 0 [0..<n]))"
    unfolding np_zeros_mat by (rule fill_loop_f64_mat [OF assms]) simp
  moreover have "mat_of (n + 1) (\<lambda>r c. foldl (\<lambda>v j. f64 (v + diag_term_f64 npsum ds j r c)) 0 [0..<n]) =
                 mat_of (n + 1) (upper_f64 npsum ds)"
    by (rule mat_of_cong) (simp add: foldl_diag_terms_f64 [OF assms(1)])
  moreover have "mat_of (n + 1) (\<lambda>r c. foldl (\<lambda>v j. f64 (v + diag_term_f64 npsum dds j r c)) 0 [0..<n]) =
                 mat_of (n + 1) (upper_f64 npsum dds)"
    by (rule mat_of_cong) (simp add: foldl_diag_terms_f64 [OF assms(2)])
  ultimately show ?thesis by simp
qed

lemma pair_loop_f64_success:
  assumes "pair_loop_f64 solve self g sts ks (ds, dds) calls = (Inr (ds', dds'), calls')"
  shows "\<exists>cs rs. calls' = calls @ cs \<and> length cs = length ks \<and> map solve cs = map Inr rs \<and>
                 ds' = ds @ map (\<lambda>p. f64 (fst p)) rs \<and> dds' = dds @ map (\<lambda>p. sq_f64 (snd p)) rs"
  using assms
proof (induction ks arbitrary: ds dds calls)
  case Nil
  then show ?case by simp
next
  case (Cons k ks)
  from Cons.prems obtain call df ddf where
    sol: "solve call = Inr (df, ddf)" and
    rec: "pair_loop_f64 solve self g sts ks (ds @ [f64 df], dds @ [sq_f64 ddf]) (calls @ [call])
            = (Inr (ds', dds'), calls')"
    by (auto simp: Let_def split: sum.splits prod.splits)
  from Cons.IH [OF rec] obtain cs rs where
    c: "calls' = (calls @ [call]) @ cs" "length cs = length ks" and
    r: "map solve cs = map Inr rs"
       "ds' = (ds @ [f64 df]) @ map (\<lambda>p. f64 (fst p)) rs"
       "dds' = (dds @ [sq_f64 ddf]) @ map (\<lambda>p. sq_f64 (snd p)) rs"
    by blast
  have "calls' = calls @ (call # cs) \<and> length (call # cs) = length (k # ks) \<and>
        map solve (call # cs) = map Inr ((df, ddf) # rs) \<and>
        ds' = ds @ map (\<lambda>p. f64 (fst p)) ((df, ddf) # rs) \<and>
        dds' = dds @ map (\<lambda>p. sq_f64 (snd p)) ((df, ddf) # rs)"
    using c r sol by simp
  then show ?case by blast
qed

lemma fit_f64_ok:
  assumes "fit_f64 npsum solve s t = (Inr (), s', calls)"
  shows "\<exists>rs. length rs + 1 = length (columns t) \<and> map solve calls = map Inr rs \<and>
              s' = s\<lparr>states := Some (columns t),
                     delta_f := Some (delta_frame_f64 npsum (columns t) (map (\<lambda>p. f64 (fst p)) rs)),
                     d_delta_f := Some (d_delta_frame_f64 npsum (columns t)
                                          (map (\<lambda>p. sq_f64 (snd p)) rs))\<rparr>"
proof -
  let ?s1 = "s\<lparr>states := Some (columns t)\<rparr>"
  let ?g = "rows (sort_index t)"
  let ?ks = "[0..<length (columns t) - 1]"
  obtain r cs where loop: "pair_loop_f64 solve ?s1 ?g (columns t) ?ks ([], []) [] = (r, cs)"
    by (cases "pair_loop_f64 solve ?s1 ?g (columns t) ?ks ([], []) []")
  show ?thesis
  proof (cases r)
    case (Inl e)
    with loop assms show ?thesis by (simp add: fit_f64_def Let_def)
  next
    case (Inr acc)
    obtain ds dds where acc: "acc = (ds, dds)" by (cases acc)
    have loop': "pair_loop_f64 solve ?s1 ?g (columns t) ?ks ([], []) [] = (Inr (ds, dds), cs)"
      using loop Inr acc by simp
    from pair_loop_f64_success [OF loop'] obtain cs' rs where
      c: "cs = [] @ cs'" "length cs' = length ?ks" and
      rs: "map solve cs' = map Inr rs"
          "ds = [] @ map (\<lambda>p. f64 (fst p)) rs" "dds = [] @ map (\<lambda>p. sq_f64 (snd p)) rs"
      by blast
    have lrs: "length rs = length (columns t) - 1"
      using arg_cong [OF rs(1), of length] c(2) by simp
    then have len: "length ds = length (columns t) - 1" "length dds = length ds"
      using rs(2,3) by simp_all
    have fill: "fill_loop_f64 npsum ds dds [0..<length ds]
                  (np_zeros (length ds + 1) (length ds + 1), np_zeros (length ds + 1) (length ds + 1)) =
                (mat_of (length ds + 1) (upper_f64 npsum ds), mat_of (length ds + 1) (upper_f64 npsum dds))"
      by (rule fill_loop_f64_upper) (simp_all add: len)
    have ne: "columns t \<noteq> []"
    proof
      assume e: "columns t = []"
      then have "length ds = 0" using len by simp
      with e assms loop' fill show False
        by (simp add: fit_f64_def Let_def pd_DataFrame_def np_T_mat np_sub_f64_mat)
    qed
    then have K: "length ds + 1 = length (columns t)"
      using len by (cases "columns t") simp_all
    have res: "calls = cs \<and>
               s' = s\<lparr>states := Some (columns t),
                      delta_f := Some (delta_frame_f64 npsum (columns t) ds),
                      d_delta_f := Some (d_delta_frame_f64 npsum (columns t) dds)\<rparr>"
      using assms loop' fill K ne
      by (simp add: fit_f64_def Let_def pd_DataFrame_def np_T_mat np_sub_f64_mat np_add_f64_mat
                    np_sqrt_f64_mat delta_frame_f64_def d_delta_frame_f64_def)
    have "length rs + 1 = length (columns t)"
      using K rs(2) by simp
    moreover have "map solve calls = map Inr rs"
      using res c(1) rs(1) by simp
    ultimately show ?thesis
      using res rs(2,3) by (intro exI [of _ rs]) simp
  qed
qed

lemma delta_frame_f64_upper_entry:
  assumes "i < j" and "j < length sts"
  shows "data (delta_frame_f64 npsum sts ds) ! i ! j = upper_f64 npsum ds i j"
  using assms by (simp add: delta_frame_f64_def mat_of_nth) (simp add: upper_f64_def)


lemma f64_exact:
  "f64 fl_01 = fl_01" "f64 fl_02 = fl_02" "f64 fl_03 = fl_03" "f64 fl_03up = fl_03up"
  "f64 fl_06 = fl_06" "f64 (1 / 2) = 1 / 2" "f64 1 = 1" "f64 2 = 2" "f64 3 = 3"
proof -
  show "f64 fl_01 = fl_01"
    unfolding fl_01_def by (subst f64_eval [where k = 56]) (simp_all add: round_half_even_def)
  show "f64 fl_02 = fl_02"
    unfolding fl_02_def by (subst f64_eval [where k = 55]) (simp_all add: round_half_even_def)
  show "f64 fl_03 = fl_03"
    unfolding fl_03_def by (subst f64_eval [where k = 54]) (simp_all add: round_half_even_def)
  show "f64 fl_03up = fl_03up"
    unfolding fl_03up_def by (subst f64_eval [where k = 54]) (simp_all add: round_half_even_def)
  show "f64 fl_06 = fl_06"
    unfolding fl_06_def by (subst f64_eval [where k = 53]) (simp_all add: round_half_even_def)
  show "f64 (1 / 2) = 1 / 2"
    by (subst f64_eval [where k = 53]) (simp_all add: round_half_even_def)
  show "f64 1 = 1"
    by (subst f64_eval [where k = 52]) (simp_all add: round_half_even_def)
  show "f64 2 = 2"
    by (subst f64_eval [where k = 51]) (simp_all add: round_half_even_def)
  show "f64 3 = 3"
    by (subst f64_eval [where k = 51]) (simp_all add: round_half_even_def)
qed

lemma f64_sums:
  "f64 (fl_01 + fl_02) = fl_03up" "f64 (fl_02 + fl_03) = 1 / 2" "f64 (fl_01 + 1 / 2) = fl_06"
  "f64 (fl_03up + fl_03) = fl_06up"
proof -
  show "f64 (fl_01 + fl_02) = fl_03up"
    unfolding fl_01_def fl_02_def fl_03up_def
    by (subst f64_eval [where k = 54]) (simp_all add: round_half_even_def)
  show "f64 (fl_02 + fl_03) = 1 / 2"
    unfolding fl_02_def fl_03_def
    by (subst f64_eval [where k = 53]) (simp_all add: round_half_even_def)
  show "f64 (fl_01 + 1 / 2) = fl_06"
    unfolding fl_01_def fl_06_def
    by (subst f64_eval [where k = 53]) (simp_all add: round_half_even_def)
  show "f64 (fl_03up + fl_03) = fl_06up"
    unfolding fl_03up_def fl_03_def fl_06up_def
    by (subst f64_eval [where k = 53]) (simp_all add: round_half_even_def)
qed

lemma f64_sqrt2: "f64 (sqrt 2) = fl_sqrt2"
proof -
  have lo: "6369051672525773 - 1 / 2 < sqrt 2 * 2 ^ 52"
    unfolding sqrt_scaled by (rule real_less_rsqrt) (simp add: power2_eq_square)
  have hi: "sqrt 2 * 2 ^ 52 < 6369051672525773 + 1 / 2"
    unfolding sqrt_scaled by (rule real_less_lsqrt) (simp_all add: power2_eq_square)
  have r: "round_half_even (sqrt 2 * 2 ^ 52) = 6369051672525773"
    using lo hi by (intro round_half_even_near) simp_all
  have "2 ^ 52 \<le> sqrt 2 * 2 ^ 52" "sqrt 2 * 2 ^ 52 < 2 ^ 53"
    using lo hi by simp_all
  from f64_eval [OF this] r show ?thesis by (simp add: fl_sqrt2_def)
qed

lemma f64_sqrt3: "f64 (sqrt 3) = fl_sqrt3"
proof -
  have lo: "7800463371553962 - 1 / 2 < sqrt 3 * 2 ^ 52"
    unfolding sqrt_scaled by (rule real_less_rsqrt) (simp add: power2_eq_square)
  have hi: "sqrt 3 * 2 ^ 52 < 7800463371553962 + 1 / 2"
    unfolding sqrt_scaled by (rule real_less_lsqrt) (simp_all add: power2_eq_square)
  have r: "round_half_even (sqrt 3 * 2 ^ 52) = 7800463371553962"
    using lo hi by (intro round_half_even_near) simp_all
  have "2 ^ 52 \<le> sqrt 3 * 2 ^ 52" "sqrt 3 * 2 ^ 52 < 2 ^ 53"
    using lo hi by simp_all
  from f64_eval [OF this] r show ?thesis by (simp add: fl_sqrt3_def)
qed

lemma f64_square_sqrt2: "f64 (fl_sqrt2 * fl_sqrt2) = fl_2up"
  unfolding fl_sqrt2_def fl_2up_def
  by (subst f64_eval [where k = 51]) (simp_all add: round_half_even_def)

lemma sq_f64_vals: "sq_f64 1 = 1" "sq_f64 fl_sqrt2 = fl_2up"
proof -
  show "sq_f64 1 = 1" by (simp add: sq_f64_def f64_exact)
  have "f64 fl_sqrt2 = fl_sqrt2"
    using f64_idem [of "sqrt 2"] by (simp add: f64_sqrt2)
  then show "sq_f64 fl_sqrt2 = fl_2up"
    by (simp add: sq_f64_def f64_square_sqrt2)
qed

lemma loop4:
  "pair_loop_f64 solver_tenths (est0\<lparr>states := Some (columns tbl4)\<rparr>) (rows (sort_index tbl4))
     (columns tbl4) [0..<length (columns tbl4) - 1] ([], []) [] =
   (Inr ([fl_01, fl_02, fl_03], [1, 1, 1]), calls4)"
  by (simp add: upt_conv_Cons get_group_def iloc_col_def series_sub_f64_def solver_tenths_def
                sort_index_def tbl4_def est0_def BAR_init_def calls4_def cfg_kwargs_def
                f64_exact sq_f64_vals Let_def)

lemma fit_f64_loop_succeeds:
  assumes "pair_loop_f64 solve (s\<lparr>states := Some (columns t)\<rparr>) (rows (sort_index t)) (columns t)
             [0..<length (columns t) - 1] ([], []) [] = (Inr (ds, dds), calls)"
    and "columns t \<noteq> []"
  shows "fit_f64 npsum solve s t =
           (Inr (), s\<lparr>states := Some (columns t),
                       delta_f := Some (delta_frame_f64 npsum (columns t) ds),
                       d_delta_f := Some (d_delta_frame_f64 npsum (columns t) dds)\<rparr>, calls)"
proof -
  from pair_loop_f64_success [OF assms(1)] obtain cs rs where
    c: "length cs = length [0..<length (columns t) - 1]" and
    rs: "map solve cs = map Inr rs"
        "ds = [] @ map (\<lambda>p. f64 (fst p)) rs" "dds = [] @ map (\<lambda>p. sq_f64 (snd p)) rs"
    by blast
  have "length rs = length (columns t) - 1"
    using arg_cong [OF rs(1), of length] c by simp
  then have len: "length ds = length (columns t) - 1" "length dds = length ds"
    using rs(2,3) by simp_all
  have fill: "fill_loop_f64 npsum ds dds [0..<length ds]
                (np_zeros (length ds + 1) (length ds + 1), np_zeros (length ds + 1) (length ds + 1)) =
              (mat_of (length ds + 1) (upper_f64 npsum ds), mat_of (length ds + 1) (upper_f64 npsum dds))"
    by (rule fill_loop_f64_upper) (simp_all add: len)
  have K: "length ds + 1 = length (columns t)"
    using len assms(2) by (cases "columns t") simp_all
  show ?thesis
    using assms fill K
    by (simp add: fit_f64_def Let_def pd_DataFrame_def np_T_mat np_sub_f64_mat np_add_f64_mat
                  np_sqrt_f64_mat delta_frame_f64_def d_delta_frame_f64_def)
qed

lemma cols4: "columns tbl4 = [0, 1, 2, 3]"
  by (simp add: tbl4_def)

lemma np_sum_loop_vals:
  "np_sum_loop [] = 0" "np_sum_loop [fl_02] = fl_02" "np_sum_loop [fl_03] = fl_03"
  "np_sum_loop [fl_02, fl_03] = 1 / 2" "np_sum_loop [1] = 1" "np_sum_loop [1, 1] = 2"
  by (simp_all add: np_sum_loop_def f64_exact f64_sums)

lemma frames4:
  "delta_frame_f64 np_sum_loop [0, 1, 2, 3::nat] [fl_01, fl_02, fl_03] = D4"
  "d_delta_frame_f64 np_sum_loop [0, 1, 2, 3::nat] [1, 1, 1] = E4"
  by (simp_all add: delta_frame_f64_def d_delta_frame_f64_def mat_of_def upper_f64_def upt_conv_Cons
                    np_sum_loop_vals f64_exact f64_sums f64_minus f64_sqrt2 f64_sqrt3 D4_def E4_def)

lemma fit_f64_tbl4: "fit_f64 np_sum_loop solver_tenths est0 tbl4 = (Inr (), est4, calls4)"
proof -
  have ne: "columns tbl4 \<noteq> []" by (simp add: tbl4_def)
  show ?thesis
    unfolding fit_f64_loop_succeeds [OF loop4 ne] cols4 frames4 est4_def by simp
qed

section \<open>The claims\<close>

text \<open>
  C1 (transitivity), as the code has it. The claim as stated fails in float64. With the
  pairwise estimates 0.1, 0.2 and 0.3 of a four-state chain the code computes
  \<open>delta_f_[0, 3]\<close> as \<open>0.1 + (0.2 + 0.3)\<close>, which is the double 0.6, while the three adjacent
  entries added from left to right give the next double, 0.6000000000000001, and their
  exact sum is a third number.
\<close>

theorem fit_chain_sum_f64_counterexample:
  "fit_f64 np_sum_loop solver_tenths est0 tbl4 = (Inr (), est4, calls4) \<and>
   delta_f est4 = Some D4 \<and>
   data D4 ! 0 ! 1 = fl_01 \<and> data D4 ! 1 ! 2 = fl_02 \<and> data D4 ! 2 ! 3 = fl_03 \<and>
   data D4 ! 0 ! 3 = fl_06 \<and>
   f64 (f64 (data D4 ! 0 ! 1 + data D4 ! 1 ! 2) + data D4 ! 2 ! 3) = fl_06up \<and>
   data D4 ! 0 ! 3 \<noteq> f64 (f64 (data D4 ! 0 ! 1 + data D4 ! 1 ! 2) + data D4 ! 2 ! 3) \<and>
   data D4 ! 0 ! 3 \<noteq> data D4 ! 0 ! 1 + data D4 ! 1 ! 2 + data D4 ! 2 ! 3"
proof -
  have e: "data D4 ! 0 ! 1 = fl_01 \<and> data D4 ! 1 ! 2 = fl_02 \<and> data D4 ! 2 ! 3 = fl_03 \<and>
           data D4 ! 0 ! 3 = fl_06"
    by (simp add: D4_def)
  have l: "f64 (f64 (fl_01 + fl_02) + fl_03) = fl_06up"
    by (simp add: f64_sums)
  have n1: "fl_06 \<noteq> fl_06up"
    by (simp add: fl_06_def fl_06up_def)
  have n2: "fl_06 \<noteq> fl_01 + fl_02 + fl_03"
    by (simp add: fl_06_def fl_01_def fl_02_def fl_03_def)
  have d: "delta_f est4 = Some D4"
    by (simp add: est4_def)
  show ?thesis
    using fit_f64_tbl4 d e l n1 n2 by simp
qed

text \<open>
  C1, amended. After a successful \<open>fit\<close> on a table with \<open>K\<close> columns, for all chain
  positions \<open>i < j < K\<close> the entry \<open>delta_f_[i, j]\<close> is the float64 sum of the adjacent entry
  \<open>delta_f_[i, i + 1]\<close> and numpy's sum of the adjacent entries \<open>delta_f_[k, k + 1]\<close> for \<open>k\<close>
  from \<open>i + 1\<close> to \<open>j - 1\<close>: the order in which the code adds. Each of these adjacent
  entries is the \<open>df\<close> that the \<open>k\<close>-th solver call of the run returned.
\<close>

theorem fit_f64_delta_f_chain:
  assumes "npsum [] = 0"
    and "fit_f64 npsum solve s t = (Inr (), s', calls)" and "delta_f s' = Some D"
    and "i < j" and "j < length (columns t)"
  shows "data D ! i ! j =
           f64 (data D ! i ! (i + 1) + npsum (map (\<lambda>k. data D ! k ! (k + 1)) [i + 1..<j])) \<and>
         (\<forall>k. i \<le> k \<and> k < j \<longrightarrow>
            (\<exists>df ddf. solve (calls ! k) = Inr (df, ddf) \<and> data D ! k ! (k + 1) = f64 df))"
proof -
  from fit_f64_ok [OF assms(2)] obtain rs where
    K: "length rs + 1 = length (columns t)" and
    sol: "map solve calls = map Inr rs" and
    s': "s' = s\<lparr>states := Some (columns t),
                 delta_f := Some (delta_frame_f64 npsum (columns t) (map (\<lambda>p. f64 (fst p)) rs)),
                 d_delta_f := Some (d_delta_frame_f64 npsum (columns t)
                                      (map (\<lambda>p. sq_f64 (snd p)) rs))\<rparr>"
    by blast
  let ?ds = "map (\<lambda>p. f64 (fst p)) rs"
  have D: "D = delta_frame_f64 npsum (columns t) ?ds"
    using s' assms(3) by simp
  have adj: "data D ! k ! (k + 1) = f64 (fst (rs ! k))" if "k < j" for k
  proof -
    have k: "k < length rs" "k + 1 < length (columns t)"
      using that assms(5) K by simp_all
    have "data D ! k ! (k + 1) = upper_f64 npsum ?ds k (k + 1)"
      unfolding D using k(2) by (intro delta_frame_f64_upper_entry) simp_all
    also have "\<dots> = f64 (fst (rs ! k))"
      using k(1) assms(1) by (simp add: upper_f64_def)
    finally show ?thesis .
  qed
  have adj': "?ds ! k = data D ! k ! (k + 1)" if "k < j" for k
  proof -
    have "k < length rs" using that assms(5) K by simp
    then show ?thesis using adj [OF that] by simp
  qed
  have "data D ! i ! j = upper_f64 npsum ?ds i j"
    unfolding D using assms(4,5) by (rule delta_frame_f64_upper_entry)
  also have "\<dots> = f64 (?ds ! i + npsum (map (\<lambda>k. ?ds ! k) [i + 1..<j]))"
    using assms(4) by (simp add: upper_f64_def)
  also have "map (\<lambda>k. ?ds ! k) [i + 1..<j] = map (\<lambda>k. data D ! k ! (k + 1)) [i + 1..<j]"
    by (rule map_cong) (simp_all add: adj')
  also have "?ds ! i = data D ! i ! (i + 1)"
    using assms(4) by (rule adj')
  finally have first:
    "data D ! i ! j = f64 (data D ! i ! (i + 1) + npsum (map (\<lambda>k. data D ! k ! (k + 1)) [i + 1..<j]))" .
  have second: "\<exists>df ddf. solve (calls ! k) = Inr (df, ddf) \<and> data D ! k ! (k + 1) = f64 df"
    if "i \<le> k \<and> k < j" for k
  proof -
    have kj: "k < j" using that by simp
    then have "k < length rs" using assms(5) K by simp
    from solve_nth [OF sol this] have "solve (calls ! k) = Inr (fst (rs ! k), snd (rs ! k))"
      by simp
    with adj [OF kj] show ?thesis by blast
  qed
  from first second show ?thesis by blast
qed

theorem fit_f64_delta_f_chain_witness:
  "np_sum_loop [] = 0 \<and>
   fit_f64 np_sum_loop solver_tenths est0 tbl4 = (Inr (), est4, calls4) \<and>
   delta_f est4 = Some D4 \<and> (0::nat) < 3 \<and> 3 < length (columns tbl4) \<and>
   data D4 ! 0 ! 3 =
     f64 (data D4 ! 0 ! (0 + 1) +
          np_sum_loop (map (\<lambda>k. data D4 ! k ! (k + 1)) [0 + 1..<3])) \<and>
   data D4 ! 0 ! 3 = fl_06"
proof -
  have h1: "np_sum_loop [] = 0" by (simp add: np_sum_loop_def)
  have h3: "delta_f est4 = Some D4" by (simp add: est4_def)
  have h4: "(0::nat) < 3" by simp
  have h5: "3 < length (columns tbl4)" by (simp add: tbl4_def)
  from fit_f64_delta_f_chain [OF h1 fit_f64_tbl4 h3 h4 h5]
  have "data D4 ! 0 ! 3 =
     f64 (data D4 ! 0 ! (0 + 1) +
          np_sum_loop (map (\<lambda>k. data D4 ! k ! (k + 1)) [0 + 1..<3]))"
    by (rule conjunct1)
  moreover have "data D4 ! 0 ! 3 = fl_06" by (simp add: D4_def)
  ultimately show ?thesis using h1 fit_f64_tbl4 h3 h4 h5 by blast
qed

text \<open>
  C2 (antisymmetry). After a successful \<open>fit\<close>, \<open>delta_f_\<close> is a \<open>K\<close> by \<open>K\<close> array with
  \<open>delta_f_[i, j] = - delta_f_[j, i]\<close> for all \<open>i, j < K\<close>, and a zero diagonal.
\<close>

theorem fit_delta_f_antisymmetric:
  assumes "fit solve s t = (Inr (), s', calls)" and "delta_f s' = Some D"
    and "i < length (columns t)" and "j < length (columns t)"
  shows "data D ! i ! j = - data D ! j ! i \<and> data D ! i ! i = 0 \<and>
         length (data D) = length (columns t) \<and> length (data D ! i) = length (columns t)"
proof -
  from fit_ok [OF assms(1)] obtain rs where
    s': "s' = s\<lparr>states := Some (columns t),
                 delta_f := Some (delta_frame (columns t) (map fst rs)),
                 d_delta_f := Some (d_delta_frame (columns t) (map (\<lambda>p. (snd p) ^ 2) rs))\<rparr>"
    by blast
  have D: "D = delta_frame (columns t) (map fst rs)"
    using s' assms(2) by simp
  have "length (data D) = length (columns t)" "length (data D ! i) = length (columns t)"
    unfolding D using assms(3) by (simp_all add: delta_frame_def mat_of_def)
  then show ?thesis
    unfolding D using assms(3,4) by (simp add: delta_frame_entry)
qed

theorem fit_delta_f_antisymmetric_witness:
  "fit solver_demo est0 tbl3 = (Inr (), est3, calls3) \<and> delta_f est3 = Some D3 \<and>
   0 < length (columns tbl3) \<and> 2 < length (columns tbl3) \<and>
   data D3 ! 0 ! 2 = - data D3 ! 2 ! 0 \<and> data D3 ! 0 ! 0 = 0 \<and>
   length (data D3) = length (columns tbl3) \<and> length (data D3 ! 0) = length (columns tbl3)"
proof -
  have h2: "delta_f est3 = Some D3" by (simp add: est3_def)
  have h3: "0 < length (columns tbl3)" by (simp add: tbl3_def)
  have h4: "2 < length (columns tbl3)" by (simp add: tbl3_def)
  from fit_delta_f_antisymmetric [OF fit_tbl3_run h2 h3 h4]
  show ?thesis using fit_tbl3_run h2 h3 h4 by blast
qed




text \<open>
  C4 (symmetry and nonnegativity). After a successful \<open>fit\<close>, \<open>d_delta_f_\<close> is a \<open>K\<close> by \<open>K\<close>
  array with \<open>d_delta_f_[i, j] = d_delta_f_[j, i] \<ge> 0\<close> for all \<open>i, j < K\<close>, and a zero
  diagonal.
\<close>

theorem fit_d_delta_f_symmetric:
  assumes "fit solve s t = (Inr (), s', calls)" and "d_delta_f s' = Some E"
    and "i < length (columns t)" and "j < length (columns t)"
  shows "data E ! i ! j = data E ! j ! i \<and> 0 \<le> data E ! i ! j \<and> data E ! i ! i = 0 \<and>
         length (data E) = length (columns t) \<and> length (data E ! i) = length (columns t)"
proof -
  from fit_ok [OF assms(1)] obtain rs where
    K: "length rs + 1 = length (columns t)" and
    s': "s' = s\<lparr>states := Some (columns t),
                 delta_f := Some (delta_frame (columns t) (map fst rs)),
                 d_delta_f := Some (d_delta_frame (columns t) (map (\<lambda>p. (snd p) ^ 2) rs))\<rparr>"
    by blast
  let ?v = "map (\<lambda>p. (snd p) ^ 2) rs"
  have E: "E = d_delta_frame (columns t) ?v"
    using s' assms(2) by simp
  have nn: "\<forall>k<length ?v. 0 \<le> ?v ! k" by simp
  have "0 \<le> upper ?v i j" "0 \<le> upper ?v j i"
    using assms(3,4) K by (auto intro!: upper_nonneg [OF nn])
  then have "0 \<le> sqrt (upper ?v i j + upper ?v j i)" by simp
  moreover have "length (data E) = length (columns t)" "length (data E ! i) = length (columns t)"
    unfolding E using assms(3) by (simp_all add: d_delta_frame_def mat_of_def)
  ultimately show ?thesis
    unfolding E using assms(3,4) by (simp add: d_delta_frame_entry add.commute)
qed

theorem fit_d_delta_f_symmetric_witness:
  "fit solver_demo est0 tbl3 = (Inr (), est3, calls3) \<and> d_delta_f est3 = Some E3 \<and>
   0 < length (columns tbl3) \<and> 2 < length (columns tbl3) \<and>
   data E3 ! 0 ! 2 = data E3 ! 2 ! 0 \<and> 0 \<le> data E3 ! 0 ! 2 \<and> data E3 ! 0 ! 0 = 0 \<and>
   length (data E3) = length (columns tbl3) \<and> length (data E3 ! 0) = length (columns tbl3)"
proof -
  have h2: "d_delta_f est3 = Some E3" by (simp add: est3_def)
  have h3: "0 < length (columns tbl3)" by (simp add: tbl3_def)
  have h4: "2 < length (columns tbl3)" by (simp add: tbl3_def)
  from fit_d_delta_f_symmetric [OF fit_tbl3_run h2 h3 h4]
  show ?thesis using fit_tbl3_run h2 h3 h4 by blast
qed

text \<open>
  C5 (adjacency consistency). A successful \<open>fit\<close> makes exactly \<open>K - 1\<close> solver calls; for
  every chain position \<open>k\<close> with \<open>k + 1 < K\<close>, the \<open>k\<close>-th call is the one for the pair
  \<open>(k, k + 1)\<close> and the \<open>df\<close> it returned is the entry \<open>delta_f_[k, k + 1]\<close>.
\<close>

theorem fit_adjacent_entry_is_solver_df:
  assumes "fit solve s t = (Inr (), s', calls)" and "delta_f s' = Some D"
    and "k + 1 < length (columns t)"
  shows "length calls = length (columns t) - 1 \<and>
         w_F (calls ! k) = spec_w_F (rows (sort_index t)) (columns t) k \<and>
         w_R (calls ! k) = spec_w_R (rows (sort_index t)) (columns t) k \<and>
         (\<exists>ddf. solve (calls ! k) = Inr (data D ! k ! (k + 1), ddf))"
proof -
  from fit_ok [OF assms(1)] obtain rs where
    K: "length rs + 1 = length (columns t)" and
    c: "calls = map (pair_call s (rows (sort_index t)) (columns t)) [0..<length rs]" and
    sol: "map solve calls = map Inr rs" and
    s': "s' = s\<lparr>states := Some (columns t),
                 delta_f := Some (delta_frame (columns t) (map fst rs)),
                 d_delta_f := Some (d_delta_frame (columns t) (map (\<lambda>p. (snd p) ^ 2) rs))\<rparr>"
    by blast
  have D: "D = delta_frame (columns t) (map fst rs)"
    using s' assms(2) by simp
  have k: "k < length rs" "k < length (columns t)"
    using assms(3) K by simp_all
  have "data D ! k ! (k + 1) = fst (rs ! k)"
    unfolding D using k assms(3) by (simp add: delta_frame_entry)
  moreover from solve_nth [OF sol k(1)] have "solve (calls ! k) = Inr (fst (rs ! k), snd (rs ! k))"
    by simp
  ultimately have "\<exists>ddf. solve (calls ! k) = Inr (data D ! k ! (k + 1), ddf)"
    by (intro exI [of _ "snd (rs ! k)"]) simp
  moreover have "calls ! k = pair_call s (rows (sort_index t)) (columns t) k"
    using c k(1) by simp
  moreover have "length calls = length (columns t) - 1"
    using c K by simp
  ultimately show ?thesis by (simp add: pair_call_def)
qed

theorem fit_adjacent_entry_is_solver_df_witness:
  "fit solver_demo est0 tbl3 = (Inr (), est3, calls3) \<and> delta_f est3 = Some D3 \<and>
   1 + 1 < length (columns tbl3) \<and>
   length calls3 = length (columns tbl3) - 1 \<and>
   w_F (calls3 ! 1) = spec_w_F (rows (sort_index tbl3)) (columns tbl3) 1 \<and>
   w_R (calls3 ! 1) = spec_w_R (rows (sort_index tbl3)) (columns tbl3) 1 \<and>
   solver_demo (calls3 ! 1) = Inr (data D3 ! 1 ! (1 + 1), 3)"
proof -
  have h2: "delta_f est3 = Some D3" by (simp add: est3_def)
  have h3: "1 + 1 < length (columns tbl3)" by (simp add: tbl3_def)
  note c = fit_adjacent_entry_is_solver_df [OF fit_tbl3_run h2 h3]
  have "solver_demo (calls3 ! 1) = Inr (data D3 ! 1 ! (1 + 1), 3)"
    by (simp add: solver_demo_def calls3_def D3_def)
  with c show ?thesis using fit_tbl3_run h2 h3 by blast
qed

text \<open>
  C6 (work sequences). The table the groups are taken from holds the samples of the input
  sorted by origin label. Whatever the outcome of \<open>fit\<close>, its \<open>k\<close>-th solver call is for a
  chain position with \<open>k + 1 < K\<close> and carries the work sequences of the specification,
  read from that sorted table: \<open>w_F\<close> is column \<open>k + 1\<close> minus column \<open>k\<close> over the samples
  whose origin is the label of column \<open>k\<close>, \<open>w_R\<close> is column \<open>k\<close> minus column \<open>k + 1\<close> over
  the samples whose origin is the label of column \<open>k + 1\<close>. Said of the input table: each
  sequence runs over exactly the samples with that origin, in the order of their time
  (samples of equal time in the order of the input).
\<close>

theorem fit_work_sequences:
  assumes "fit solve s t = (res, s', calls)" and "k < length calls"
  shows "k + 1 < length (columns t) \<and>
         sorted (map origin (rows (sort_index t))) \<and>
         mset (rows (sort_index t)) = mset (rows t) \<and>
         w_F (calls ! k) = spec_w_F (rows (sort_index t)) (columns t) k \<and>
         w_R (calls ! k) = spec_w_R (rows (sort_index t)) (columns t) k \<and>
         w_F (calls ! k) =
           map (\<lambda>r. energies r ! (k + 1) - energies r ! k)
             (sort_key time (filter (\<lambda>r. origin r = columns t ! k) (rows t))) \<and>
         w_R (calls ! k) =
           map (\<lambda>r. energies r ! k - energies r ! (k + 1))
             (sort_key time (filter (\<lambda>r. origin r = columns t ! (k + 1)) (rows t))) \<and>
         mset (w_F (calls ! k)) =
           image_mset (\<lambda>r. energies r ! (k + 1) - energies r ! k)
             (filter_mset (\<lambda>r. origin r = columns t ! k) (mset (rows t))) \<and>
         mset (w_R (calls ! k)) =
           image_mset (\<lambda>r. energies r ! k - energies r ! (k + 1))
             (filter_mset (\<lambda>r. origin r = columns t ! (k + 1)) (mset (rows t)))"
proof -
  from fit_calls [OF assms(1)] obtain m where
    m: "m \<le> length (columns t) - 1" and
    c: "calls = map (pair_call s (rows (sort_index t)) (columns t)) [0..<m]"
    by blast
  have km: "k < m" using assms(2) c by simp
  then have k1: "k + 1 < length (columns t)" using m by simp
  have ck: "calls ! k = pair_call s (rows (sort_index t)) (columns t) k"
    using c km by simp
  have wf: "w_F (calls ! k) = spec_w_F (rows (sort_index t)) (columns t) k"
    and wr: "w_R (calls ! k) = spec_w_R (rows (sort_index t)) (columns t) k"
    using ck by (simp_all add: pair_call_def)
  have wf2: "w_F (calls ! k) =
           map (\<lambda>r. energies r ! (k + 1) - energies r ! k)
             (sort_key time (filter (\<lambda>r. origin r = columns t ! k) (rows t)))"
    unfolding wf spec_w_F_def group_of_sorted ..
  have wr2: "w_R (calls ! k) =
           map (\<lambda>r. energies r ! k - energies r ! (k + 1))
             (sort_key time (filter (\<lambda>r. origin r = columns t ! (k + 1)) (rows t)))"
    unfolding wr spec_w_R_def group_of_sorted ..
  have m1: "mset (w_F (calls ! k)) =
           image_mset (\<lambda>r. energies r ! (k + 1) - energies r ! k)
             (filter_mset (\<lambda>r. origin r = columns t ! k) (mset (rows t)))"
    unfolding wf2 by simp
  have m2: "mset (w_R (calls ! k)) =
           image_mset (\<lambda>r. energies r ! k - energies r ! (k + 1))
             (filter_mset (\<lambda>r. origin r = columns t ! (k + 1)) (mset (rows t)))"
    unfolding wr2 by simp
  show ?thesis
    using k1 sorted_by_origin [of t] sort_index_mset [of t] wf wr wf2 wr2 m1 m2 by blast
qed

theorem fit_work_sequences_witness:
  "fit solver_demo est0 tbl_rev = (Inr (), est3, calls3) \<and> 0 < length calls3 \<and>
   0 + 1 < length (columns tbl_rev) \<and>
   \<not> sorted (map origin (rows tbl_rev)) \<and>
   sorted (map origin (rows (sort_index tbl_rev))) \<and>
   map (\<lambda>r. energies r ! (0 + 1) - energies r ! 0)
     (filter (\<lambda>r. origin r = columns tbl_rev ! 0) (rows tbl_rev)) = [2, 1] \<and>
   w_F (calls3 ! 0) =
     map (\<lambda>r. energies r ! (0 + 1) - energies r ! 0)
       (sort_key time (filter (\<lambda>r. origin r = columns tbl_rev ! 0) (rows tbl_rev))) \<and>
   w_F (calls3 ! 0) = [1, 2] \<and> w_R (calls3 ! 0) = [2]"
proof -
  have h2: "0 < length calls3" by (simp add: calls3_def)
  note c = fit_work_sequences [OF fit_tbl_rev_run h2]
  have "w_F (calls3 ! 0) = [1, 2] \<and> w_R (calls3 ! 0) = [2]"
    by (simp add: calls3_def)
  moreover have "\<not> sorted (map origin (rows tbl_rev))"
    by (simp add: tbl_rev_def)
  moreover have "map (\<lambda>r. energies r ! (0 + 1) - energies r ! 0)
     (filter (\<lambda>r. origin r = columns tbl_rev ! 0) (rows tbl_rev)) = [2, 1]"
    by (simp add: tbl_rev_def)
  ultimately show ?thesis using c fit_tbl_rev_run h2 by blast
qed

text \<open>
  C7 (zero samples), as the code has it. The claim as stated fails: with a single column
  no group is ever looked up, so a table whose only state has no sample is fitted without
  an error and both matrices are assigned (the one by one zero arrays).
\<close>

theorem fit_zero_samples_counterexample:
  "0 \<in> set (columns tbl_one) \<and> \<not> in_groups (rows tbl_one) 0 \<and>
   fit solver_fail est0 tbl_one = (Inr (), est_one, []) \<and>
   delta_f est_one = Some zero_frame \<and> d_delta_f est_one = Some zero_frame"
  using fit_tbl_one_run by (simp add: tbl_one_def in_groups_def est_one_def)

text \<open>
  C7, amended. When the table has at least two columns and some column label is the
  origin of no sample, or when some solver call of the run raises, \<open>fit\<close> ends with an
  exception and assigns neither \<open>delta_f_\<close> nor \<open>d_delta_f_\<close>.
\<close>

theorem fit_aborts_without_matrices:
  assumes "fit solve s t = (res, s', calls)"
    and "(2 \<le> length (columns t) \<and> \<not> set (columns t) \<subseteq> origin ` set (rows t)) \<or>
         (\<exists>c\<in>set calls. \<exists>e. solve c = Inl e)"
  shows "(\<exists>e. res = Inl e) \<and> delta_f s' = delta_f s \<and> d_delta_f s' = d_delta_f s"
proof -
  have "res \<noteq> Inr ()"
  proof
    assume "res = Inr ()"
    with assms(1) have ok: "fit solve s t = (Inr (), s', calls)" by simp
    from fit_ok [OF ok] obtain rs where
      sol: "map solve calls = map Inr rs" and
      sub: "set (columns t) \<subseteq> origin ` set (rows t) \<union>
              (if length (columns t) = 1 then set (columns t) else {})"
      by blast
    from assms(2) show False
    proof
      assume "2 \<le> length (columns t) \<and> \<not> set (columns t) \<subseteq> origin ` set (rows t)"
      with sub show False by (simp split: if_splits)
    next
      assume "\<exists>c\<in>set calls. \<exists>e. solve c = Inl e"
      then obtain c e where c: "c \<in> set calls" "solve c = Inl e" by blast
      then have "Inl e \<in> set (map solve calls)" by force
      with sol show False by auto
    qed
  qed
  then obtain e where e: "res = Inl e"
    by (cases res) simp_all
  with assms(1) have "fit solve s t = (Inl e, s', calls)" by simp
  from fit_err [OF this] e show ?thesis by simp
qed

theorem fit_aborts_without_matrices_witness:
  "fit solver_demo est0 tbl_gap = (Inl (KeyError 2), est3_failed, [call_12]) \<and>
   2 \<le> length (columns tbl_gap) \<and> \<not> set (columns tbl_gap) \<subseteq> origin ` set (rows tbl_gap) \<and>
   delta_f est3_failed = delta_f est0 \<and> d_delta_f est3_failed = d_delta_f est0 \<and>
   delta_f est3_failed = None \<and> d_delta_f est3_failed = None \<and>
   fit solver_fail est0 tbl3 = (Inl (SolverError ()), est3_failed, [calls3 ! 0]) \<and>
   solver_fail (calls3 ! 0) = Inl ()"
proof -
  have h2: "2 \<le> length (columns tbl_gap) \<and> \<not> set (columns tbl_gap) \<subseteq> origin ` set (rows tbl_gap)"
    by (simp add: tbl_gap_def)
  have g: "(\<exists>e. (Inl (KeyError 2) :: (nat, unit) error + unit) = Inl e) \<and>
           delta_f est3_failed = delta_f est0 \<and> d_delta_f est3_failed = d_delta_f est0"
    by (rule fit_aborts_without_matrices [OF fit_tbl_gap_run disjI1 [OF h2]])
  have h3: "\<exists>c\<in>set [calls3 ! 0]. \<exists>e. solver_fail c = Inl e"
    by (simp add: solver_fail_def)
  have f: "(\<exists>e. (Inl (SolverError ()) :: (nat, unit) error + unit) = Inl e) \<and>
           delta_f est3_failed = delta_f est0 \<and> d_delta_f est3_failed = d_delta_f est0"
    by (rule fit_aborts_without_matrices [OF fit_tbl3_failed disjI2 [OF h3]])
  have n: "delta_f est0 = None \<and> d_delta_f est0 = None"
    by (simp add: est0_def BAR_init_def)
  have "solver_fail (calls3 ! 0) = Inl ()" by (simp add: solver_fail_def)
  with g f n h2 fit_tbl_gap_run fit_tbl3_failed show ?thesis by simp
qed

text \<open>
  C8 (solver parameters). The solver calls of \<open>fit\<close> carry three keyword arguments,
  \<open>maximum_iterations\<close>, \<open>relative_tolerance\<close> and \<open>verbose\<close>; the configured \<open>method\<close> and
  \<open>initial_f_k\<close> are not passed, and changing them changes neither the outcome nor any
  solver call.
\<close>

theorem fit_calls_ignore_method_and_initial_f_k:
  assumes "fit solve s t = (res, s', calls)"
  shows "(\<exists>s''. fit solve (s\<lparr>method_arg := m, initial_f_k := g\<rparr>) t = (res, s'', calls)) \<and>
         (\<forall>c\<in>set calls. map fst (kwargs c) =
            [''maximum_iterations'', ''relative_tolerance'', ''verbose''])"
proof -
  let ?s2 = "s\<lparr>method_arg := m, initial_f_k := g\<rparr>"
  let ?gr = "rows (sort_index t)"
  let ?ks = "[0..<length (columns t) - 1]"
  have same: "pair_loop solve (?s2\<lparr>states := Some (columns t)\<rparr>) ?gr (columns t) ?ks ([], []) [] =
              pair_loop solve (s\<lparr>states := Some (columns t)\<rparr>) ?gr (columns t) ?ks ([], []) []"
    by (rule pair_loop_cong_call) (simp add: pair_call_def bar_kwargs_def)
  obtain r cs where loop: "pair_loop solve (s\<lparr>states := Some (columns t)\<rparr>) ?gr (columns t) ?ks ([], []) [] = (r, cs)"
    by (cases "pair_loop solve (s\<lparr>states := Some (columns t)\<rparr>) ?gr (columns t) ?ks ([], []) []")
  have first: "\<exists>s''. fit solve ?s2 t = (res, s'', calls)"
  proof (cases r)
    case (Inl e)
    with loop have l1: "pair_loop solve (s\<lparr>states := Some (columns t)\<rparr>) ?gr (columns t) ?ks ([], []) [] = (Inl e, cs)"
      by simp
    with same have l2: "pair_loop solve (?s2\<lparr>states := Some (columns t)\<rparr>) ?gr (columns t) ?ks ([], []) [] = (Inl e, cs)"
      by simp
    from fit_loop_fails [OF l1] fit_loop_fails [OF l2] assms show ?thesis by simp
  next
    case (Inr acc)
    with loop have l1: "pair_loop solve (s\<lparr>states := Some (columns t)\<rparr>) ?gr (columns t) ?ks ([], []) [] = (Inr (fst acc, snd acc), cs)"
      by simp
    with same have l2: "pair_loop solve (?s2\<lparr>states := Some (columns t)\<rparr>) ?gr (columns t) ?ks ([], []) [] = (Inr (fst acc, snd acc), cs)"
      by simp
    from fit_loop_succeeds [OF l1] fit_loop_succeeds [OF l2] assms show ?thesis
      by (simp split: if_splits)
  qed
  from fit_calls [OF assms] obtain k where
    "calls = map (pair_call s ?gr (columns t)) [0..<k]" by blast
  then have "\<forall>c\<in>set calls. map fst (kwargs c) =
               [''maximum_iterations'', ''relative_tolerance'', ''verbose'']"
    by (auto simp: pair_call_def bar_kwargs_def)
  with first show ?thesis by blast
qed

theorem fit_calls_ignore_method_and_initial_f_k_witness:
  "fit solver_demo est0 tbl3 = (Inr (), est3, calls3) \<and>
   method_arg est_bfgs = [[(''method'', ''BFGS'')]] \<and> initial_f_k est_bfgs = Some [1, 2, 3] \<and>
   fst (fit solver_demo est_bfgs tbl3) = Inr () \<and>
   snd (snd (fit solver_demo est_bfgs tbl3)) = calls3 \<and>
   map fst (kwargs (calls3 ! 0)) = [''maximum_iterations'', ''relative_tolerance'', ''verbose'']"
proof -
  have e: "est_bfgs = est0\<lparr>method_arg := [[(''method'', ''BFGS'')]], initial_f_k := Some [1, 2, 3]\<rparr>"
    by (simp add: est_bfgs_def est0_def BAR_init_def)
  from fit_calls_ignore_method_and_initial_f_k [OF fit_tbl3_run,
         where m = "[[(''method'', ''BFGS'')]]" and g = "Some [1, 2, 3]"]
  obtain s'' where "fit solver_demo est_bfgs tbl3 = (Inr (), s'', calls3)"
    unfolding e by blast
  then have "fst (fit solver_demo est_bfgs tbl3) = Inr () \<and>
             snd (snd (fit solver_demo est_bfgs tbl3)) = calls3"
    by simp
  moreover have "map fst (kwargs (calls3 ! 0)) =
                   [''maximum_iterations'', ''relative_tolerance'', ''verbose'']"
    by (simp add: calls3_def cfg_kwargs_def)
  moreover have "method_arg est_bfgs = [[(''method'', ''BFGS'')]] \<and> initial_f_k est_bfgs = Some [1, 2, 3]"
    by (simp add: est_bfgs_def BAR_init_def)
  ultimately show ?thesis using fit_tbl3_run by blast
qed

text \<open>
  C9 (misaligned input), as the code has it. The claim as stated fails: a table with two
  columns and samples from three distinct origin states is fitted without any error; the
  samples of the third state are ignored.
\<close>

theorem fit_misaligned_counterexample:
  "length (columns tbl_extra) = 2 \<and> card (origin ` set (rows tbl_extra)) = 3 \<and>
   fit solver_demo est0 tbl_extra = (Inr (), est_extra, [call_12])"
  using fit_tbl_extra_run by (simp add: tbl_extra_def)

text \<open>
  C9, amended. \<open>fit\<close> validates nothing before the pairwise extraction. With a solver that
  answers every call, \<open>fit\<close> returns normally exactly when the table has one column, or
  at least two columns each of whose labels is the origin of some sample: origin states
  that are not column labels, and the order of the columns, are never examined.
\<close>

theorem fit_succeeds_iff:
  assumes "\<forall>c. \<exists>p. solve c = Inr p"
  shows "(fst (fit solve s t) = Inr ()) =
         (length (columns t) = 1 \<or>
          (2 \<le> length (columns t) \<and> set (columns t) \<subseteq> origin ` set (rows t)))"
proof
  assume ok: "fst (fit solve s t) = Inr ()"
  obtain s' calls where "fit solve s t = (Inr (), s', calls)"
    using ok by (cases "fit solve s t") simp
  from fit_ok [OF this] obtain rs :: "(real \<times> real) list" where
    K: "length rs + 1 = length (columns t)" and
    sub: "set (columns t) \<subseteq> origin ` set (rows t) \<union>
            (if length (columns t) = 1 then set (columns t) else {})"
    by blast
  show "length (columns t) = 1 \<or>
        (2 \<le> length (columns t) \<and> set (columns t) \<subseteq> origin ` set (rows t))"
  proof (cases "length (columns t) = 1")
    case True
    then show ?thesis by simp
  next
    case False
    with K have "2 \<le> length (columns t)" by (cases rs) simp_all
    with False sub show ?thesis by simp
  qed
next
  assume rhs: "length (columns t) = 1 \<or>
               (2 \<le> length (columns t) \<and> set (columns t) \<subseteq> origin ` set (rows t))"
  let ?s1 = "s\<lparr>states := Some (columns t)\<rparr>"
  let ?g = "rows (sort_index t)"
  let ?ks = "[0..<length (columns t) - 1]"
  have ne: "columns t \<noteq> []" using rhs by auto
  have pres: "\<forall>k\<in>set ?ks. columns t ! k \<in> origin ` set ?g \<and> columns t ! (k + 1) \<in> origin ` set ?g"
  proof
    fix k assume "k \<in> set ?ks"
    then have k: "k < length (columns t)" "k + 1 < length (columns t)" by simp_all
    then have "2 \<le> length (columns t)" by simp
    with rhs have "set (columns t) \<subseteq> origin ` set (rows t)" by simp
    moreover have "columns t ! k \<in> set (columns t)" "columns t ! (k + 1) \<in> set (columns t)"
      using k by simp_all
    ultimately show "columns t ! k \<in> origin ` set ?g \<and> columns t ! (k + 1) \<in> origin ` set ?g"
      by auto
  qed
  from pair_loop_total [where self = ?s1 and ds = "[]" and dds = "[]" and calls = "[]", OF assms pres] obtain acc cs where
    "pair_loop solve ?s1 ?g (columns t) ?ks ([], []) [] = (Inr acc, cs)" by blast
  then have "pair_loop solve ?s1 ?g (columns t) ?ks ([], []) [] = (Inr (fst acc, snd acc), cs)"
    by simp
  from fit_loop_succeeds [OF this] ne show "fst (fit solve s t) = Inr ()" by simp
qed

theorem fit_succeeds_iff_witness:
  "fst (fit solver_demo est0 tbl3) = Inr () \<and> 2 \<le> length (columns tbl3) \<and>
   set (columns tbl3) \<subseteq> origin ` set (rows tbl3)"
proof -
  have tot: "\<forall>c. \<exists>p. solver_demo c = Inr p"
    by (simp add: solver_demo_def)
  have rhs: "2 \<le> length (columns tbl3) \<and> set (columns tbl3) \<subseteq> origin ` set (rows tbl3)"
    by (simp add: tbl3_def)
  from fit_succeeds_iff [OF tot, of est0 tbl3] rhs show ?thesis by blast
qed

text \<open>
  C10 (state after a failure). Whenever \<open>fit\<close> ends with an exception, \<open>states_\<close> has been
  assigned the column labels of the input, and \<open>delta_f_\<close> and \<open>d_delta_f_\<close> are what they
  were before the call: missing on a fresh estimator. The exception is the \<open>KeyError\<close> of
  the lookup of a column label without samples, or the one the last solver call raised,
  or the \<open>ValueError\<close> of the table constructor when the input has no column.
\<close>

theorem fit_error_leaves_states_assigned:
  assumes "fit solve s t = (Inl e, s', calls)"
  shows "states s' = Some (columns t) \<and> delta_f s' = delta_f s \<and> d_delta_f s' = d_delta_f s \<and>
         ((e = ValueError \<and> columns t = []) \<or>
          (\<exists>l\<in>set (columns t). e = KeyError l \<and> l \<notin> origin ` set (rows t)) \<or>
          (\<exists>x. e = SolverError x \<and> calls \<noteq> [] \<and> solve (last calls) = Inl x))"
  using fit_err [OF assms] fit_error_cause [OF assms] by simp

theorem fit_error_leaves_states_assigned_witness:
  "fit solver_fail est0 tbl3 = (Inl (SolverError ()), est3_failed, [calls3 ! 0]) \<and>
   states est3_failed = Some (columns tbl3) \<and>
   delta_f est3_failed = delta_f est0 \<and> d_delta_f est3_failed = d_delta_f est0 \<and>
   delta_f est3_failed = None \<and> d_delta_f est3_failed = None"
proof -
  note c = fit_error_leaves_states_assigned [OF fit_tbl3_failed]
  have "delta_f est0 = None \<and> d_delta_f est0 = None"
    by (simp add: est0_def BAR_init_def)
  with c fit_tbl3_failed show ?thesis by simp
qed

end
